theory Spec2Isabelle
  imports Main "HOL-Library.Word"
begin

unbundle bit_operations_syntax

section \<open>userchroot: data\<close>

text \<open>
  C strings (arguments, paths, account names) are character lists; the terminating NUL is
  implicit, so a C string holds no NUL of its own. The bytes of the configuration file are
  a character list too, and there a NUL byte can occur. Memory allocation is taken to
  succeed (the exits after a failed \<^verbatim>\<open>malloc\<close> or \<^verbatim>\<open>realloc\<close> are left out), and lengths
  are natural numbers (the source keeps them in \<^verbatim>\<open>int\<close>, which the lengths of arguments
  and account names do not exceed).
\<close>

type_synonym uid_t = "32 word"
type_synonym gid_t = "32 word"
type_synonym mode_t = "32 word"
type_synonym dev_t = "64 word"
type_synonym ino_t = "64 word"

text \<open>The fields of \<^verbatim>\<open>struct stat\<close> that the program reads.\<close>

record stat =
  st_mode :: mode_t
  st_uid :: uid_t
  st_dev :: dev_t
  st_ino :: ino_t

text \<open>\<^verbatim>\<open>S_ISDIR\<close> and \<^verbatim>\<open>S_ISREG\<close>: the file type bits are \<^verbatim>\<open>0170000\<close>,
  a directory is \<^verbatim>\<open>0040000\<close>, a regular file \<^verbatim>\<open>0100000\<close>.\<close>

definition S_ISDIR :: "mode_t \<Rightarrow> bool" where
  "S_ISDIR m = (m AND 0xF000 = 0x4000)"

definition S_ISREG :: "mode_t \<Rightarrow> bool" where
  "S_ISREG m = (m AND 0xF000 = 0x8000)"

text \<open>\<^verbatim>\<open>mode & 00022\<close> as a C truth value: some group-write or other-write bit is set.\<close>

definition writable_bits :: "mode_t \<Rightarrow> bool" where
  "writable_bits m = (\<not> (m AND 0x12 = 0))"

text \<open>
  Every line the program prints on the standard error stream. All but two are followed by
  \<^verbatim>\<open>exit(ERR_EXIT_CODE)\<close>; \<open>Config_not_regular\<close> and \<open>Config_moved\<close> are printed by
  \<^verbatim>\<open>check_config_file\<close> with no exit after them.
\<close>

datatype diag =
    Non_whitelisted
  | Paths_not_absolute
  | Stat_directory_failed
  | Not_a_directory
  | Directory_not_root_owned
  | Directory_permissions
  | Stat_config_failed
  | Config_not_regular
  | Config_not_root_owned
  | Config_permissions
  | Fstat_failed
  | Config_moved
  | Clear_environment_failed
  | Corrupted_environment
  | No_root_privileges
  | Setgid_root
  | Run_as_root
  | Open_config_failed
  | Usage
  | Stat_target_failed
  | Target_not_directory
  | Target_permissions
  | Path_not_absolute
  | No_last_component
  | Impossible_target
  | Trailing_slash
  | Dot_or_dotdot
  | Stat_base_failed
  | Base_not_directory
  | Base_permissions
  | Owner_mismatch
  | Getpwuid_failed
  | Close_config_failed
  | Permission_denied
  | Owner_only
  | Chdir_failed
  | Chroot_failed
  | Give_up_privileges_failed
  | Chdir_root_failed
  | Exec_failed

section \<open>String functions of the C library\<close>

abbreviation NUL :: char where "NUL \<equiv> CHR 0x00"
abbreviation NL :: char where "NL \<equiv> CHR 0x0A"
abbreviation SLASH :: char where "SLASH \<equiv> CHR ''/''"

text \<open>\<^verbatim>\<open>s[i]\<close> of a C string: the terminator stands at index \<open>length s\<close>.\<close>

definition cstr_at :: "string \<Rightarrow> nat \<Rightarrow> char" where
  "cstr_at s i = (if i < length s then s ! i else NUL)"

text \<open>The C string that starts a buffer: the bytes before the first NUL.\<close>

definition cstr :: "string \<Rightarrow> string" where
  "cstr buf = takeWhile (\<lambda>c. c \<noteq> NUL) buf"

text \<open>\<^verbatim>\<open>strrchr\<close>: the index of the last occurrence, \<open>None\<close> for the null pointer.\<close>

primrec strrchr_from :: "nat \<Rightarrow> nat option \<Rightarrow> string \<Rightarrow> char \<Rightarrow> nat option" where
  "strrchr_from i found [] c = found"
| "strrchr_from i found (x # xs) c =
     strrchr_from (Suc i) (if x = c then Some i else found) xs c"

definition strrchr :: "string \<Rightarrow> char \<Rightarrow> nat option" where
  "strrchr s c = strrchr_from 0 None s c"

text \<open>\<^verbatim>\<open>strchr(s, c) != NULL\<close>.\<close>

definition strchr_found :: "string \<Rightarrow> char \<Rightarrow> bool" where
  "strchr_found s c = (c \<in> set s)"

text \<open>\<^verbatim>\<open>strncmp(a, b, n) == 0\<close> on C strings: the first \<open>n\<close> characters agree, the
  terminator included when a string is shorter than \<open>n\<close>.\<close>

definition strncmp_eq :: "string \<Rightarrow> string \<Rightarrow> nat \<Rightarrow> bool" where
  "strncmp_eq a b n = (take n a = take n b)"

text \<open>\<^verbatim>\<open>strcspn(s, "=")\<close>: the length of the part before the first \<open>=\<close>.\<close>

definition strcspn_eq :: "string \<Rightarrow> nat" where
  "strcspn_eq s = length (takeWhile (\<lambda>c. c \<noteq> CHR ''='') s)"

section \<open>Path validator\<close>

text \<open>\<^verbatim>\<open>whitelist_char_check\<close>: the test on one character (a signed \<^verbatim>\<open>char\<close>, so a byte
  above \<^verbatim>\<open>0x7F\<close> is below every range), and the loop over the string.\<close>

definition whitelisted :: "bool \<Rightarrow> char \<Rightarrow> bool" where
  "whitelisted allow_slashes c =
     (let n = (of_char c :: nat) in
      (0x41 \<le> n \<and> n \<le> 0x5A) \<or> (0x61 \<le> n \<and> n \<le> 0x7A) \<or> (0x30 \<le> n \<and> n \<le> 0x39)
      \<or> (n = 0x2E \<or> n = 0x5F \<or> n = 0x2B \<or> n = 0x2C \<or> n = 0x2D)
      \<or> (allow_slashes \<and> c = SLASH))"

definition whitelist_char_check :: "string \<Rightarrow> bool \<Rightarrow> diag + unit" where
  "whitelist_char_check str allow_slashes =
     (if list_all (whitelisted allow_slashes) str then Inr () else Inl Non_whitelisted)"

text \<open>
  \<^verbatim>\<open>check_base_path\<close>, lines 85 to 132. \<open>tosplit\<close> is the copy of the path that the loop
  cuts at its last slash. When the last slash is the first character the loop sets
  \<open>interrupt\<close> and leaves \<open>tosplit\<close> as it is; otherwise it writes the terminator over
  the slash. Then it calls \<^verbatim>\<open>lstat(tosplit)\<close> and tests the result. The function returns
  the arguments of its \<^verbatim>\<open>lstat\<close> calls, in order, and \<open>Inl\<close> where the source exits.
\<close>

lemma strrchr_from_bound:
  "strrchr_from i found s c = Some k \<Longrightarrow> found = Some k \<or> (i \<le> k \<and> k < i + length s)"
  by (induction s arbitrary: i found) (fastforce split: if_splits)+

lemma strrchr_bound: "strrchr s c = Some k \<Longrightarrow> k < length s"
  using strrchr_from_bound [of 0 None s c k] by (simp add: strrchr_def)

function check_base_path_loop ::
  "(string \<Rightarrow> stat option) \<Rightarrow> string \<Rightarrow> string list \<times> (diag + unit)" where
  "check_base_path_loop lstat tosplit =
     (case strrchr tosplit SLASH of
        None \<Rightarrow> ([], Inl Paths_not_absolute)
      | Some slash \<Rightarrow>
          (let interrupt = (slash = 0);
               tosplit' = (if slash = 0 then tosplit else take slash tosplit)
           in case lstat tosplit' of
                None \<Rightarrow> ([tosplit'], Inl Stat_directory_failed)
              | Some pstat \<Rightarrow>
                  if \<not> S_ISDIR (st_mode pstat) then ([tosplit'], Inl Not_a_directory)
                  else if st_uid pstat \<noteq> 0 then ([tosplit'], Inl Directory_not_root_owned)
                  else if writable_bits (st_mode pstat) then ([tosplit'], Inl Directory_permissions)
                  else if interrupt then ([tosplit'], Inr ())
                  else (let r = check_base_path_loop lstat tosplit'
                        in (tosplit' # fst r, snd r))))"
  by pat_completeness auto
termination
  by (relation "measure (\<lambda>(lstat, tosplit). length tosplit)")
     (auto dest: strrchr_bound)

declare check_base_path_loop.simps [simp del]

definition check_base_path :: "(string \<Rightarrow> stat option) \<Rightarrow> string \<Rightarrow> string list \<times> (diag + unit)" where
  "check_base_path lstat path = check_base_path_loop lstat path"


section \<open>Platform: credentials\<close>

text \<open>
  The identities of the process, and the four system calls that change them, with the
  classical semantics of POSIX (effective user 0 is the privileged process; a saved id is
  kept). A failed call returns \<open>-1\<close> and changes nothing.
\<close>

record creds =
  ruid :: uid_t
  euid :: uid_t
  suid :: uid_t
  rgid :: gid_t
  egid :: gid_t
  sgid :: gid_t

definition sys_setuid :: "uid_t \<Rightarrow> creds \<Rightarrow> int \<times> creds" where
  "sys_setuid u c =
     (if euid c = 0 then (0, c\<lparr>ruid := u, euid := u, suid := u\<rparr>)
      else if u = ruid c \<or> u = suid c then (0, c\<lparr>euid := u\<rparr>)
      else (- 1, c))"

definition sys_seteuid :: "uid_t \<Rightarrow> creds \<Rightarrow> int \<times> creds" where
  "sys_seteuid u c =
     (if euid c = 0 \<or> u = ruid c \<or> u = suid c then (0, c\<lparr>euid := u\<rparr>)
      else (- 1, c))"

definition sys_setgid :: "gid_t \<Rightarrow> creds \<Rightarrow> int \<times> creds" where
  "sys_setgid g c =
     (if euid c = 0 then (0, c\<lparr>rgid := g, egid := g, sgid := g\<rparr>)
      else if g = rgid c \<or> g = sgid c then (0, c\<lparr>egid := g\<rparr>)
      else (- 1, c))"

definition sys_setegid :: "gid_t \<Rightarrow> creds \<Rightarrow> int \<times> creds" where
  "sys_setegid g c =
     (if euid c = 0 \<or> g = rgid c \<or> g = sgid c then (0, c\<lparr>egid := g\<rparr>)
      else (- 1, c))"

section \<open>Platform: the environment vector\<close>

text \<open>
  \<open>environ\<close> is the C library's pointer to the current environment vector (\<open>None\<close> is
  the null pointer); \<open>vec\<close> gives the strings of the vector behind each address. The
  third parameter of \<^verbatim>\<open>main\<close> is such an address.
\<close>

type_synonym ptr = nat

record envmem =
  environ :: "ptr option"
  vec :: "ptr \<Rightarrow> string list"

text \<open>\<^verbatim>\<open>clearenv()\<close> sets \<open>environ\<close> to the null pointer and writes to no vector.\<close>

definition libc_clearenv :: "envmem \<Rightarrow> envmem" where
  "libc_clearenv m = m\<lparr>environ := None\<rparr>"

text \<open>
  One behaviour of \<^verbatim>\<open>unsetenv\<close>, that of glibc and musl: every entry \<open>name=...\<close> is
  deleted from the vector \<open>environ\<close> points to, in place, the later entries moving down.
  A C library may also work on a copy of the vector; the platform of a run supplies its
  own \<^verbatim>\<open>unsetenv\<close> (\<open>libc_unsetenv\<close> below).
\<close>

definition entry_of :: "string \<Rightarrow> string \<Rightarrow> bool" where
  "entry_of name e = (take (length name) e = name \<and> cstr_at e (length name) = CHR ''='')"

definition unsetenv_in_place :: "string \<Rightarrow> envmem \<Rightarrow> int \<times> envmem" where
  "unsetenv_in_place name m =
     (if name = [] \<or> CHR ''='' \<in> set name then (- 1, m)
      else case environ m of
             None \<Rightarrow> (0, m)
           | Some p \<Rightarrow> (0, m\<lparr>vec := (vec m)(p := filter (\<lambda>e. \<not> entry_of name e) (vec m p))\<rparr>))"

section \<open>Platform: what the program is built with and runs on\<close>

text \<open>
  The two build-time settings the source reads (\<^verbatim>\<open>CONFIGFILE\<close> and \<^verbatim>\<open>_HAVE_CLEARENV\<close>) and
  the answers of the system and the C library to the calls the program makes. The file
  system does not change during the run, except that the file behind the opened
  configuration stream (\<open>libc_fopen_cfg\<close>, \<open>sys_fstat_cfg\<close>) need not be the one that
  \<open>sys_lstat\<close> finds at the configuration path.
\<close>

record world =
  build_CFG :: string
  build_have_clearenv :: bool
  libc_clearenv_rc :: int
  libc_unsetenv :: "string \<Rightarrow> envmem \<Rightarrow> int \<times> envmem"
  sys_lstat :: "string \<Rightarrow> stat option"
  libc_fopen_cfg :: "string option"
  sys_fstat_cfg :: "stat option"
  libc_getpwuid :: "uid_t \<Rightarrow> string option"
  libc_fclose_rc :: int
  sys_chdir :: "string \<Rightarrow> int"
  sys_chroot :: "string \<Rightarrow> int"
  sys_chdir_new_root :: "string \<Rightarrow> int"
  sys_execve_fails :: "string \<Rightarrow> string list \<Rightarrow> bool"

section \<open>Environment sanitization\<close>

text \<open>
  \<^verbatim>\<open>portable_clearenv\<close>, lines 173 to 209. With \<^verbatim>\<open>_HAVE_CLEARENV\<close> it is one call of
  \<^verbatim>\<open>clearenv\<close>. Without, the loop unsets the name of the first entry until the vector is
  empty; a platform whose \<^verbatim>\<open>unsetenv\<close> leaves the first entry in place keeps the loop
  running, and then the function has no result (\<open>None\<close>).
\<close>

partial_function (option) clearenv_loop ::
  "(string \<Rightarrow> envmem \<Rightarrow> int \<times> envmem) \<Rightarrow> envmem \<Rightarrow> (diag + envmem) option" where
  "clearenv_loop unset m =
     (case environ m of
        None \<Rightarrow> Some (Inr m)
      | Some p \<Rightarrow>
          (case vec m p of
             [] \<Rightarrow> Some (Inr m)
           | e # es \<Rightarrow>
               (let len = strcspn_eq e
                in if len = 0 then Some (Inl Corrupted_environment)
                   else (case unset (take len e) m of
                           (rc, m') \<Rightarrow>
                             if rc = - 1 then Some (Inl Clear_environment_failed)
                             else clearenv_loop unset m'))))"

definition portable_clearenv :: "world \<Rightarrow> envmem \<Rightarrow> (diag + envmem) option" where
  "portable_clearenv w m =
     (if build_have_clearenv w
      then (let rc = libc_clearenv_rc w
            in if rc \<noteq> 0 then Some (Inl Clear_environment_failed)
               else Some (Inr (libc_clearenv m)))
      else clearenv_loop (libc_unsetenv w) m)"

section \<open>Config gatekeeper\<close>

text \<open>
  \<^verbatim>\<open>check_config_file\<close>, lines 134 to 169. The result is the list of lines printed with
  no exit after them, and \<open>Inl\<close> where the source exits. The stream itself is used for
  \<^verbatim>\<open>fstat(fileno(config))\<close> only.
\<close>

definition check_config_file :: "world \<Rightarrow> diag list \<times> (diag + unit)" where
  "check_config_file w =
     (case snd (check_base_path (sys_lstat w) (build_CFG w)) of
        Inl d \<Rightarrow> ([], Inl d)
      | Inr _ \<Rightarrow>
          (case sys_lstat w (build_CFG w) of
             None \<Rightarrow> ([], Inl Stat_config_failed)
           | Some configfilestat \<Rightarrow>
               (let printed1 = (if \<not> S_ISREG (st_mode configfilestat) then [Config_not_regular] else [])
                in if st_uid configfilestat \<noteq> 0 then (printed1, Inl Config_not_root_owned)
                   else if writable_bits (st_mode configfilestat) then (printed1, Inl Config_permissions)
                   else (let device = st_dev configfilestat;
                             inode = st_ino configfilestat
                         in case sys_fstat_cfg w of
                              None \<Rightarrow> (printed1, Inl Fstat_failed)
                            | Some configfilestat' \<Rightarrow>
                                (if st_dev configfilestat' \<noteq> device \<or> st_ino configfilestat' \<noteq> inode
                                 then (printed1 @ [Config_moved], Inr ())
                                 else (printed1, Inr ()))))))"

section \<open>The configuration stream\<close>

text \<open>
  A \<^verbatim>\<open>FILE*\<close> opened for reading: the bytes not yet read and the end-of-file indicator
  that \<^verbatim>\<open>feof\<close> reports. \<^verbatim>\<open>fgets(buf, n, f)\<close> reads at most \<open>n - 1\<close> bytes and stops after
  a newline; it sets the indicator when it asks for a byte and there is none, and returns
  the null pointer when it has read nothing. (Modelled for \<open>n \<ge> 2\<close>; the program's buffer
  is at least three bytes.)
\<close>

record stream =
  pending :: string
  eof_flag :: bool

fun fgets_chars :: "nat \<Rightarrow> string \<Rightarrow> string \<times> string \<times> bool" where
  "fgets_chars 0 p = ([], p, False)"
| "fgets_chars (Suc k) [] = ([], [], True)"
| "fgets_chars (Suc k) (c # p) =
     (if c = NL then ([c], p, False)
      else (case fgets_chars k p of (buf, p', hit) \<Rightarrow> (c # buf, p', hit)))"

definition fgets :: "nat \<Rightarrow> stream \<Rightarrow> string option \<times> stream" where
  "fgets n f =
     (case fgets_chars (n - 1) (pending f) of
        (buf, p', hit) \<Rightarrow>
          if buf = [] then (None, \<lparr>pending = p', eof_flag = True\<rparr>)
          else (Some buf, \<lparr>pending = p', eof_flag = (eof_flag f \<or> hit)\<rparr>))"

lemma fgets_chars_length:
  "fgets_chars k p = (buf, p', hit) \<Longrightarrow> length buf + length p' = length p"
  by (induction k p arbitrary: buf p' hit rule: fgets_chars.induct)
     (auto split: if_splits prod.splits)

lemma fgets_consumes:
  "fgets n f = (Some buf, f') \<Longrightarrow> length (pending f') < length (pending f)"
  by (cases buf) (auto simp: fgets_def split: prod.splits if_splits dest!: fgets_chars_length)

section \<open>Authorizer: the scan of the configuration\<close>

text \<open>
  The inner loop of lines 369 to 376: while the buffer holds no newline, the line is to be
  ignored and the next piece is read into the same buffer, until a piece with a newline
  arrives or the stream ends. The result is \<open>ignore\<close>, the buffer and the stream.
\<close>

function skip_rest :: "nat \<Rightarrow> string \<Rightarrow> bool \<Rightarrow> stream \<Rightarrow> bool \<times> string \<times> stream" where
  "skip_rest linelen rline ignore config =
     (if strchr_found (cstr rline) NL then (ignore, rline, config)
      else if eof_flag config then (True, rline, config)
      else (case fgets linelen config of
              (None, config') \<Rightarrow> (True, rline, config')
            | (Some buf, config') \<Rightarrow> skip_rest linelen buf True config'))"
  by pat_completeness auto
termination
  by (relation "measure (\<lambda>(linelen, rline, ignore, config). length (pending config))")
     (auto dest: fgets_consumes [OF sym])

lemma fgets_None_pending:
  "fgets n f = (None, f') \<Longrightarrow> length (pending f') \<le> length (pending f)"
  by (auto simp: fgets_def split: prod.splits if_splits dest!: fgets_chars_length)

lemma skip_rest_pending:
  "skip_rest linelen rline ignore config = (ignore', rline', config') \<Longrightarrow>
   length (pending config') \<le> length (pending config)"
proof (induction linelen rline ignore config rule: skip_rest.induct)
  case (1 linelen rline ignore config)
  note IH = "1.IH" and prems = "1.prems"
  show ?case
  proof (cases "strchr_found (cstr rline) NL \<or> eof_flag config")
    case True
    with prems show ?thesis by (auto split: if_splits)
  next
    case False
    obtain r f where fg: "fgets linelen config = (r, f)" by (cases "fgets linelen config")
    show ?thesis
    proof (cases r)
      case None
      with False fg prems show ?thesis by (auto dest: fgets_None_pending)
    next
      case (Some buf)
      with False fg prems have "skip_rest linelen buf True f = (ignore', rline', config')"
        by simp
      with IH False fg Some
      have "length (pending config') \<le> length (pending f)" by simp
      with fgets_consumes [of linelen config buf f] fg Some show ?thesis by simp
    qed
  qed
qed

declare skip_rest.simps [simp del]

text \<open>
  The outer loop of lines 366 to 381: \<open>line\<close> is the line looked for, \<open>rline\<close> the read
  buffer of \<open>linelen\<close> bytes. The result is \<open>found\<close> and the stream.
\<close>

function scan_loop :: "string \<Rightarrow> nat \<Rightarrow> string \<Rightarrow> stream \<Rightarrow> bool \<times> stream" where
  "scan_loop line linelen rline config =
     (if eof_flag config then (False, config)
      else (case fgets linelen config of
              (None, config') \<Rightarrow> (False, config')
            | (Some buf, config') \<Rightarrow>
                (case skip_rest linelen buf False config' of
                   (ignore, rline', config'') \<Rightarrow>
                     if \<not> ignore \<and> strncmp_eq line (cstr rline') linelen then (True, config'')
                     else scan_loop line linelen rline' config'')))"
  by pat_completeness auto
termination
proof (relation "measure (\<lambda>(line, linelen, rline, config). length (pending config))", goal_cases)
  case 1
  show ?case by simp
next
  case prems: 2
  show ?case
    using prems fgets_consumes skip_rest_pending
    by (fastforce simp: eq_commute [of "(_, _)"])
qed

declare scan_loop.simps [simp del]

text \<open>
  Lines 340 to 381. \<^verbatim>\<open>snprintf\<close> writes \<open>pw_name:base_path\<close> and a newline; that is
  \<open>linelen - 1\<close> characters, so nothing is cut. The read buffer is not initialised; the
  loop writes it before it reads it.
\<close>

definition config_scan :: "string \<Rightarrow> string \<Rightarrow> stream \<Rightarrow> bool \<times> stream" where
  "config_scan pw_name base_path config =
     (let linelen = length base_path + length pw_name + 3;
          line = take (linelen - 1) (pw_name @ '':'' @ base_path @ [NL])
      in scan_loop line linelen [] config)"

section \<open>Authorizer: the target\<close>

text \<open>
  Lines 270 to 303 of \<^verbatim>\<open>main\<close>. The path must start with a slash; the terminator is
  written over its last slash, which leaves \<open>base_path\<close> before it and \<open>relative_path\<close>
  after it.
\<close>

definition split_target :: "string \<Rightarrow> diag + string \<times> string" where
  "split_target path =
     (if cstr_at path 0 \<noteq> SLASH then Inl Path_not_absolute
      else (case strrchr path SLASH of
              None \<Rightarrow> Inl No_last_component
            | Some slash \<Rightarrow>
                (let base_path = take slash path;
                     relative_path = drop (Suc slash) path
                 in if cstr_at base_path 0 = NUL then Inl Impossible_target
                    else if cstr_at relative_path 0 = NUL then Inl Trailing_slash
                    else if cstr_at relative_path 0 = CHR ''.'' \<and>
                            (cstr_at relative_path 1 = NUL \<or>
                             (cstr_at relative_path 1 = CHR ''.'' \<and> cstr_at relative_path 2 = NUL))
                    then Inl Dot_or_dotdot
                    else Inr (base_path, relative_path))))"

text \<open>What the checks of lines 243 to 335 hand on to the rest of \<^verbatim>\<open>main\<close>.\<close>

record target =
  base_path :: string
  relative_path :: string
  statbase_uid :: uid_t
  pw_name :: string

definition check_target :: "world \<Rightarrow> string list \<Rightarrow> diag + target" where
  "check_target w argv =
     (if length argv < 3 then Inl Usage
      else (let path = argv ! 1 in
      (case whitelist_char_check path True of
         Inl d \<Rightarrow> Inl d
       | Inr _ \<Rightarrow>
      (case sys_lstat w path of
         None \<Rightarrow> Inl Stat_target_failed
       | Some dirstat \<Rightarrow>
      (if \<not> S_ISDIR (st_mode dirstat) then Inl Target_not_directory
       else if writable_bits (st_mode dirstat) then Inl Target_permissions
       else (let final_dir_owner = st_uid dirstat in
      (case split_target path of
         Inl d \<Rightarrow> Inl d
       | Inr (base, leaf) \<Rightarrow>
      (case whitelist_char_check base True of
         Inl d \<Rightarrow> Inl d
       | Inr _ \<Rightarrow>
      (case whitelist_char_check leaf False of
         Inl d \<Rightarrow> Inl d
       | Inr _ \<Rightarrow>
      (case sys_lstat w base of
         None \<Rightarrow> Inl Stat_base_failed
       | Some statbase_path \<Rightarrow>
      (if \<not> S_ISDIR (st_mode statbase_path) then Inl Base_not_directory
       else if writable_bits (st_mode statbase_path) then Inl Base_permissions
       else if st_uid statbase_path \<noteq> final_dir_owner then Inl Owner_mismatch
       else (case libc_getpwuid w (st_uid statbase_path) of
               None \<Rightarrow> Inl Getpwuid_failed
             | Some name \<Rightarrow>
      (case snd (check_base_path (sys_lstat w) base) of
         Inl d \<Rightarrow> Inl d
       | Inr _ \<Rightarrow>
           Inr \<lparr>base_path = base, relative_path = leaf,
                statbase_uid = st_uid statbase_path, pw_name = name\<rparr>)))))))))))))"

text \<open>Lines 340 to 389: the scan, the close of the stream, and the denial.\<close>

definition authorize :: "world \<Rightarrow> target \<Rightarrow> stream \<Rightarrow> diag + unit" where
  "authorize w t config =
     (case config_scan (pw_name t) (base_path t) config of
        (found, config') \<Rightarrow>
          if libc_fclose_rc w \<noteq> 0 then Inl Close_config_failed
          else if \<not> found then Inl Permission_denied
          else Inr ())"

section \<open>Mode dispatch and privilege transition\<close>

text \<open>
  How a run ends: \<^verbatim>\<open>exit(ERR_EXIT_CODE)\<close> after a diagnostic (the constant is defined in
  \<^verbatim>\<open>userchroot.h\<close>; every error exit of the program uses it); the call of
  \<^verbatim>\<open>create_fundamental_devices\<close> or \<^verbatim>\<open>unlink_fundamental_devices\<close> on the final path (the
  process then exits with the provisioner's result); or the process image replaced by
  \<^verbatim>\<open>execve\<close>, with the program, the argument vector, the strings of the environment vector
  handed over, and the identities the new image starts with.
\<close>

datatype outcome =
    Exit_error diag
  | Create_devices string
  | Unlink_devices string
  | Execve string "string list" "string list" creds

text \<open>Lines 449 and 450: the four attempts, left to right, until one returns 0.\<close>

definition regain_attempts :: "creds \<Rightarrow> bool \<times> creds" where
  "regain_attempts c =
     (case sys_setuid 0 c of (r1, c1) \<Rightarrow>
        if r1 = 0 then (True, c1)
        else (case sys_seteuid 0 c1 of (r2, c2) \<Rightarrow>
          if r2 = 0 then (True, c2)
          else (case sys_setgid 0 c2 of (r3, c3) \<Rightarrow>
            if r3 = 0 then (True, c3)
            else (case sys_setegid 0 c3 of (r4, c4) \<Rightarrow> (r4 = 0, c4)))))"

text \<open>Lines 392 to 476.\<close>

definition run_mode ::
  "world \<Rightarrow> creds \<Rightarrow> envmem \<Rightarrow> uid_t \<Rightarrow> target \<Rightarrow> string list \<Rightarrow> ptr \<Rightarrow> outcome" where
  "run_mode w c m target_user t argv envp =
     (let final_path = base_path t @ ''/'' @ relative_path t
      in if 3 \<le> length argv \<and> cstr_at (argv ! 2) 0 = CHR ''-''
         then (if target_user \<noteq> statbase_uid t then Exit_error Owner_only
               else if strncmp_eq ''--install-devices'' (argv ! 2) 17
                    then Create_devices final_path
               else if strncmp_eq ''--uninstall-devices'' (argv ! 2) 19
                    then Unlink_devices final_path
               else Exit_error Usage)
         else (if sys_chdir w final_path \<noteq> 0 then Exit_error Chdir_failed
               else if sys_chroot w final_path \<noteq> 0 then Exit_error Chroot_failed
               else (case sys_setuid target_user c of (rc, c1) \<Rightarrow>
                 if rc \<noteq> 0 then Exit_error Give_up_privileges_failed
                 else (case regain_attempts c1 of (regained, c2) \<Rightarrow>
                   if regained then Exit_error Give_up_privileges_failed
                   else if ruid c2 = 0 \<or> euid c2 = 0 \<or> rgid c2 = 0 \<or> egid c2 = 0
                        then Exit_error Give_up_privileges_failed
                   else if sys_chdir_new_root w ''/'' \<noteq> 0 then Exit_error Chdir_root_failed
                   else (let argv' = drop 2 argv
                         in case whitelist_char_check (argv' ! 0) True of
                              Inl d \<Rightarrow> Exit_error d
                            | Inr _ \<Rightarrow>
                                if sys_execve_fails w (argv' ! 0) argv' then Exit_error Exec_failed
                                else Execve (argv' ! 0) argv' (vec m envp) c2)))))"

section \<open>The program\<close>

text \<open>
  \<^verbatim>\<open>main\<close>: \<open>c\<close> and \<open>m\<close> are the identities and the environment at process entry,
  \<open>argv\<close> the argument vector (\<open>argc\<close> is its length) and \<open>envp\<close> the address of the
  environment vector given to the entry point. The result is the lines printed with no
  exit after them and the way the run ends; \<open>None\<close> when the environment loop does not
  return.
\<close>

definition main ::
  "world \<Rightarrow> creds \<Rightarrow> envmem \<Rightarrow> string list \<Rightarrow> ptr \<Rightarrow> (diag list \<times> outcome) option" where
  "main w c m argv envp =
     (case portable_clearenv w m of
        None \<Rightarrow> None
      | Some (Inl d) \<Rightarrow> Some ([], Exit_error d)
      | Some (Inr m') \<Rightarrow>
          Some
            (if euid c \<noteq> 0 then ([], Exit_error No_root_privileges)
             else if rgid c = 0 \<or> egid c = 0 then ([], Exit_error Setgid_root)
             else (let target_user = ruid c in
            (if target_user = 0 then ([], Exit_error Run_as_root)
             else (case libc_fopen_cfg w of
                     None \<Rightarrow> ([], Exit_error Open_config_failed)
                   | Some bytes \<Rightarrow>
            (let config = \<lparr>pending = bytes, eof_flag = False\<rparr> in
            (case check_config_file w of
               (printed, Inl d) \<Rightarrow> (printed, Exit_error d)
             | (printed, Inr _) \<Rightarrow>
            (case check_target w argv of
               Inl d \<Rightarrow> (printed, Exit_error d)
             | Inr t \<Rightarrow>
            (case authorize w t config of
               Inl d \<Rightarrow> (printed, Exit_error d)
             | Inr _ \<Rightarrow>
                 (printed, run_mode w c m' target_user t argv envp))))))))))"

section \<open>A concrete run\<close>

text \<open>
  The first end-to-end scenario of the specification: the configuration holds
  \<open>alice:/srv/jails\<close>, user \<open>alice\<close> (uid 1001) asks for \<open>/srv/jails/work\<close>; \<open>/srv/jails\<close>
  and \<open>/srv/jails/work\<close> are hers with mode \<open>0750\<close>, \<open>/\<close>, \<open>/etc\<close> and \<open>/srv\<close> are root's
  with mode \<open>0755\<close>, the configuration file is root's with mode \<open>0644\<close>.
\<close>

definition root_dir :: stat where
  "root_dir = \<lparr>st_mode = 0x41ED, st_uid = 0, st_dev = 1, st_ino = 2\<rparr>"

definition alice_dir :: stat where
  "alice_dir = \<lparr>st_mode = 0x41E8, st_uid = 1001, st_dev = 1, st_ino = 77\<rparr>"

definition conf_file :: stat where
  "conf_file = \<lparr>st_mode = 0x81A4, st_uid = 0, st_dev = 1, st_ino = 42\<rparr>"

definition fs0 :: "string \<Rightarrow> stat option" where
  "fs0 = map_of
     [(''/'', root_dir), (''/etc'', root_dir), (''/etc/userchroot.conf'', conf_file),
      (''/srv'', root_dir), (''/srv/jails'', alice_dir), (''/srv/jails/work'', alice_dir)]"

definition config0 :: string where
  "config0 = ''alice:/srv/jails'' @ [NL]"

definition world0 :: world where
  "world0 =
     \<lparr>build_CFG = ''/etc/userchroot.conf'',
      build_have_clearenv = True,
      libc_clearenv_rc = 0,
      libc_unsetenv = unsetenv_in_place,
      sys_lstat = fs0,
      libc_fopen_cfg = Some config0,
      sys_fstat_cfg = Some conf_file,
      libc_getpwuid = (\<lambda>u. if u = 1001 then Some ''alice'' else None),
      libc_fclose_rc = 0,
      sys_chdir = (\<lambda>p. 0),
      sys_chroot = (\<lambda>p. 0),
      sys_chdir_new_root = (\<lambda>p. 0),
      sys_execve_fails = (\<lambda>prog args. False)\<rparr>"

definition creds0 :: creds where
  "creds0 = \<lparr>ruid = 1001, euid = 0, suid = 0, rgid = 100, egid = 100, sgid = 100\<rparr>"

definition alice_creds :: creds where
  "alice_creds = \<lparr>ruid = 1001, euid = 1001, suid = 1001, rgid = 100, egid = 100, sgid = 100\<rparr>"

definition envp0 :: ptr where
  "envp0 = 7"

definition envmem0 :: envmem where
  "envmem0 = \<lparr>environ = Some envp0, vec = (\<lambda>p. if p = envp0 then [''HOME=/home/alice''] else [])\<rparr>"

definition argv0 :: "string list" where
  "argv0 = [''userchroot'', ''/srv/jails/work'', ''/bin/sh'']"

text \<open>What the checks of the target hand on in this scenario.\<close>

definition target0 :: target where
  "target0 = \<lparr>base_path = ''/srv/jails'', relative_path = ''work'', statbase_uid = 1001,
              pw_name = ''alice''\<rparr>"

section \<open>How a run of the program is put together\<close>

lemma main_completed:
  assumes "main w c m argv envp = Some (printed, out)"
  shows "(\<exists>d. out = Exit_error d) \<or>
         (\<exists>m' t bytes.
            portable_clearenv w m = Some (Inr m') \<and>
            euid c = 0 \<and> rgid c \<noteq> 0 \<and> egid c \<noteq> 0 \<and> ruid c \<noteq> 0 \<and>
            libc_fopen_cfg w = Some bytes \<and>
            check_config_file w = (printed, Inr ()) \<and>
            check_target w argv = Inr t \<and>
            authorize w t \<lparr>pending = bytes, eof_flag = False\<rparr> = Inr () \<and>
            out = run_mode w c m' (ruid c) t argv envp)"
  using assms
  by (auto simp: main_def Let_def split: option.splits sum.splits if_splits prod.splits)

lemma main_returns:
  assumes "portable_clearenv w m \<noteq> None"
  shows "\<exists>printed out. main w c m argv envp = Some (printed, out)"
  using assms
  by (auto simp: main_def split: option.splits sum.splits)

lemma check_target_facts:
  assumes "check_target w argv = Inr t"
  shows "3 \<le> length argv"
    and "split_target (argv ! 1) = Inr (base_path t, relative_path t)"
    and "\<exists>sb. sys_lstat w (base_path t) = Some sb \<and> statbase_uid t = st_uid sb"
    and "libc_getpwuid w (statbase_uid t) = Some (pw_name t)"
  using assms
  by (auto simp: check_target_def Let_def split: option.splits sum.splits if_splits prod.splits)

lemma authorize_facts:
  assumes "authorize w t config = Inr u"
  shows "fst (config_scan (pw_name t) (base_path t) config)" and "libc_fclose_rc w = 0"
  using assms
  by (auto simp: authorize_def split: prod.splits if_splits)

lemma run_mode_flag:
  assumes "3 \<le> length argv" and "cstr_at (argv ! 2) 0 = CHR ''-''"
  shows "run_mode w c m u t argv envp =
           (if u \<noteq> statbase_uid t then Exit_error Owner_only
            else if take 17 (argv ! 2) = ''--install-devices''
                 then Create_devices (base_path t @ ''/'' @ relative_path t)
            else if take 19 (argv ! 2) = ''--uninstall-devices''
                 then Unlink_devices (base_path t @ ''/'' @ relative_path t)
            else Exit_error Usage)"
  using assms by (auto simp: run_mode_def strncmp_eq_def)

section \<open>The split of the target, in the words of the specification\<close>

text \<open>
  "Locate the final \<open>/\<close>: the prefix is base, the suffix is leaf." The leaf is what follows
  the last slash, the base what precedes it.
\<close>

definition spec_leaf :: "string \<Rightarrow> string" where
  "spec_leaf p = rev (takeWhile (\<lambda>c. c \<noteq> SLASH) (rev p))"

definition spec_base :: "string \<Rightarrow> string" where
  "spec_base p = take (length p - length (spec_leaf p) - 1) p"

lemma takeWhile_neq_shorter:
  "c \<in> set xs \<Longrightarrow> length (takeWhile (\<lambda>x. x \<noteq> c) xs) < length xs"
  by (induction xs) auto

lemma strrchr_from_last:
  "strrchr_from i found s c =
     (if c \<in> set s
      then Some (i + (length s - 1 - length (takeWhile (\<lambda>x. x \<noteq> c) (rev s))))
      else found)"
proof (induction s arbitrary: i found)
  case Nil
  show ?case by simp
next
  case (Cons x xs)
  show ?case
  proof (cases "c \<in> set xs")
    case True
    then have "c \<in> set (rev xs)" by simp
    then have tw: "takeWhile (\<lambda>x. x \<noteq> c) (rev xs @ [x]) = takeWhile (\<lambda>x. x \<noteq> c) (rev xs)"
      by (simp add: takeWhile_append1)
    from \<open>c \<in> set (rev xs)\<close>
    have "length (takeWhile (\<lambda>x. x \<noteq> c) (rev xs)) < length (rev xs)"
      by (rule takeWhile_neq_shorter)
    then have "length (takeWhile (\<lambda>x. x \<noteq> c) (rev xs)) < length xs" by simp
    with True tw show ?thesis by (simp add: Cons.IH)
  next
    case False
    then have "takeWhile (\<lambda>y. y \<noteq> c) (rev xs @ [x]) = rev xs @ takeWhile (\<lambda>y. y \<noteq> c) [x]"
      by (intro takeWhile_append2) auto
    then have "x = c \<Longrightarrow> length (takeWhile (\<lambda>y. y \<noteq> c) (rev xs @ [x])) = length xs"
      by simp
    with False show ?thesis by (auto simp: Cons.IH)
  qed
qed

lemma strrchr_None: "strrchr s c = None \<longleftrightarrow> c \<notin> set s"
  by (simp add: strrchr_def strrchr_from_last)

lemma strrchr_Some:
  assumes "strrchr s c = Some k"
  shows "c \<in> set s" and "k = length s - 1 - length (takeWhile (\<lambda>x. x \<noteq> c) (rev s))"
  using assms by (auto simp: strrchr_def strrchr_from_last split: if_splits)

lemma strrchr_slash_split:
  assumes "strrchr p SLASH = Some k"
  shows "take k p = spec_base p" and "drop (Suc k) p = spec_leaf p"
proof -
  let ?tw = "takeWhile (\<lambda>c. c \<noteq> SLASH) (rev p)"
  from assms have mem: "SLASH \<in> set (rev p)" and k: "k = length p - 1 - length ?tw"
    using strrchr_Some [of p SLASH k] by simp_all
  from mem have lt: "length ?tw < length p"
    using takeWhile_neq_shorter [of SLASH "rev p"] by simp
  have len: "length (spec_leaf p) = length ?tw" by (simp add: spec_leaf_def)
  from k len show "take k p = spec_base p" by (simp add: spec_base_def)
  have "spec_leaf p = rev (take (length ?tw) (rev p))"
    unfolding spec_leaf_def using takeWhile_eq_take [of "\<lambda>c. c \<noteq> SLASH" "rev p"] by simp
  also have "\<dots> = drop (length p - length ?tw) p" by (simp add: rev_take)
  also from k lt have "length p - length ?tw = Suc k" by simp
  finally show "drop (Suc k) p = spec_leaf p" by simp
qed

lemma split_target_Inr:
  assumes "split_target p = Inr (b, l)"
  shows "b = spec_base p" and "l = spec_leaf p"
  using assms strrchr_slash_split [of p]
  by (auto simp: split_target_def Let_def split: if_splits option.splits)

lemma cstr_at_NUL: "NUL \<notin> set s \<Longrightarrow> cstr_at s i = NUL \<longleftrightarrow> length s \<le> i"
  by (auto simp: cstr_at_def dest: nth_mem)

lemma dot_or_dotdot:
  assumes "NUL \<notin> set l"
  shows "(cstr_at l 0 = CHR ''.'' \<and>
          (cstr_at l 1 = NUL \<or> (cstr_at l 1 = CHR ''.'' \<and> cstr_at l 2 = NUL)))
         \<longleftrightarrow> (l = ''.'' \<or> l = ''..'')"
proof (cases l)
  case Nil
  then show ?thesis by (simp add: cstr_at_def)
next
  case l1: (Cons a as)
  show ?thesis
  proof (cases as)
    case Nil
    with l1 show ?thesis by (simp add: cstr_at_def)
  next
    case l2: (Cons b bs)
    show ?thesis
    proof (cases bs)
      case Nil
      with l1 l2 assms show ?thesis by (auto simp: cstr_at_def)
    next
      case (Cons e es)
      with l1 l2 assms show ?thesis by (auto simp: cstr_at_def)
    qed
  qed
qed

text \<open>The split of lines 270 to 303 is the split of the specification.\<close>

lemma split_target_spec:
  assumes "path \<noteq> []" and "hd path = SLASH" and "NUL \<notin> set path"
  shows "split_target path =
           (if spec_base path = [] then Inl Impossible_target
            else if spec_leaf path = [] then Inl Trailing_slash
            else if spec_leaf path = ''.'' \<or> spec_leaf path = ''..'' then Inl Dot_or_dotdot
            else Inr (spec_base path, spec_leaf path))"
proof -
  from assms(1,2) have first: "cstr_at path 0 = SLASH"
    by (cases path) (simp_all add: cstr_at_def)
  from assms(1,2) have "SLASH \<in> set path" by (cases path) auto
  then obtain k where k: "strrchr path SLASH = Some k"
    using strrchr_None [of path SLASH] by (cases "strrchr path SLASH") auto
  note sp = strrchr_slash_split [OF k]
  from assms(3) have nb: "NUL \<notin> set (spec_base path)" and nl: "NUL \<notin> set (spec_leaf path)"
    using sp set_take_subset [of k path] set_drop_subset [of "Suc k" path] by auto
  have e1: "cstr_at (spec_base path) 0 = NUL \<longleftrightarrow> spec_base path = []"
    using cstr_at_NUL [OF nb, of 0] by simp
  have e2: "cstr_at (spec_leaf path) 0 = NUL \<longleftrightarrow> spec_leaf path = []"
    using cstr_at_NUL [OF nl, of 0] by simp
  show ?thesis
    unfolding split_target_def using first k
    by (simp add: sp e1 e2 dot_or_dotdot [OF nl] Let_def del: One_nat_def)
qed

lemma whitelisted_no_NUL:
  assumes "whitelist_char_check str allow = Inr u"
  shows "NUL \<notin> set str"
proof
  assume "NUL \<in> set str"
  moreover from assms have "list_all (whitelisted allow) str"
    by (simp add: whitelist_char_check_def split: if_splits)
  ultimately have "whitelisted allow NUL" by (simp add: list_all_iff)
  then show False by (simp add: whitelisted_def)
qed

text \<open>The diagnostics of the split come from the split only.\<close>

definition split_diag :: "diag \<Rightarrow> bool" where
  "split_diag d = (d = Impossible_target \<or> d = Trailing_slash \<or> d = Dot_or_dotdot)"

lemma check_base_path_loop_diag:
  "snd (check_base_path_loop lstat tosplit) = Inl d \<Longrightarrow> \<not> split_diag d"
proof (induction lstat tosplit rule: check_base_path_loop.induct)
  case (1 lstat tosplit)
  show ?case
  proof (cases "strrchr tosplit SLASH")
    case None
    with "1.prems" show ?thesis
      by (simp add: check_base_path_loop.simps [of lstat tosplit] split_diag_def)
  next
    case (Some slash)
    define tosplit' where "tosplit' = (if slash = 0 then tosplit else take slash tosplit)"
    show ?thesis
    proof (cases "lstat tosplit'")
      case None
      with "1.prems" Some show ?thesis
        by (simp add: check_base_path_loop.simps [of lstat tosplit] split_diag_def tosplit'_def
              Let_def)
    next
      case (Some pstat)
      show ?thesis
      proof (cases "\<not> S_ISDIR (st_mode pstat) \<or> st_uid pstat \<noteq> 0 \<or>
                    writable_bits (st_mode pstat) \<or> slash = 0")
        case True
        with "1.prems" \<open>strrchr tosplit SLASH = Some slash\<close> Some show ?thesis
          by (auto simp: check_base_path_loop.simps [of lstat tosplit] split_diag_def
                tosplit'_def Let_def split: if_splits)
      next
        case False
        with "1.prems" \<open>strrchr tosplit SLASH = Some slash\<close> Some
        have "snd (check_base_path_loop lstat tosplit') = Inl d"
          by (simp add: check_base_path_loop.simps [of lstat tosplit] tosplit'_def Let_def)
        with "1.IH" [OF \<open>strrchr tosplit SLASH = Some slash\<close> refl tosplit'_def Some] False
        show ?thesis by simp
      qed
    qed
  qed
qed

lemma authorize_diag: "authorize w t config = Inl d \<Longrightarrow> \<not> split_diag d"
  by (auto simp: authorize_def split_diag_def split: prod.splits if_splits)

lemma run_mode_diag: "run_mode w c m u t argv envp = Exit_error d \<Longrightarrow> \<not> split_diag d"
  by (auto simp: run_mode_def Let_def whitelist_char_check_def split_diag_def
        split: if_splits prod.splits sum.splits)

lemma whitelist_diag: "whitelist_char_check s a = Inl d \<Longrightarrow> \<not> split_diag d"
  by (auto simp: whitelist_char_check_def split_diag_def split: if_splits)

lemma clearenv_loop_diag:
  assumes "clearenv_loop unset m = Some r"
  shows "r = Inl d \<longrightarrow> \<not> split_diag d"
proof (rule clearenv_loop.raw_induct
    [where P = "\<lambda>unset m r. r = Inl d \<longrightarrow> \<not> split_diag d", OF _ assms])
  fix f :: "(string \<Rightarrow> envmem \<Rightarrow> int \<times> envmem) \<Rightarrow> envmem \<Rightarrow> (diag + envmem) option"
    and unset m r
  assume IH: "\<And>u m' y. f u m' = Some y \<Longrightarrow> y = Inl d \<longrightarrow> \<not> split_diag d"
    and body: "(case environ m of None \<Rightarrow> Some (Inr m)
      | Some p \<Rightarrow>
          case vec m p of [] \<Rightarrow> Some (Inr m)
          | e # es \<Rightarrow>
              let len = strcspn_eq e
              in if len = 0 then Some (Inl Corrupted_environment)
                 else case unset (take len e) m of
                      (rc, m') \<Rightarrow>
                        if rc = - 1 then Some (Inl Clear_environment_failed)
                        else f unset m') = Some r"
  from body IH show "r = Inl d \<longrightarrow> \<not> split_diag d"
    by (auto simp: split_diag_def Let_def split: option.splits list.splits if_splits prod.splits)
qed

lemma portable_clearenv_diag:
  "portable_clearenv w m = Some (Inl d) \<Longrightarrow> \<not> split_diag d"
  using clearenv_loop_diag [of "libc_unsetenv w" m "Inl d" d]
  by (auto simp: portable_clearenv_def Let_def split_diag_def split: if_splits)

lemma check_config_file_diag:
  "check_config_file w = (printed, Inl d) \<Longrightarrow> \<not> split_diag d"
  using check_base_path_loop_diag [of "sys_lstat w" "build_CFG w" d]
  by (auto simp: check_config_file_def check_base_path_def Let_def split_diag_def
        split: sum.splits option.splits if_splits)

lemma main_split_diag:
  assumes "main w c m argv envp = Some (printed, Exit_error d)" and "split_diag d"
  shows "check_target w argv = Inl d"
proof (cases "portable_clearenv w m")
  case None
  with assms(1) show ?thesis by (simp add: main_def)
next
  case (Some r)
  show ?thesis
  proof (cases r)
    case (Inl e)
    with Some assms(1) have "e = d" by (simp add: main_def)
    with Some Inl portable_clearenv_diag [of w m d] assms(2) show ?thesis by simp
  next
    case (Inr m')
    from assms(2) have nd: "d \<noteq> No_root_privileges" "d \<noteq> Setgid_root" "d \<noteq> Run_as_root"
      "d \<noteq> Open_config_failed"
      by (auto simp: split_diag_def)
    from assms(1) Some Inr nd obtain bytes where
      ids: "euid c = 0" "rgid c \<noteq> 0" "egid c \<noteq> 0" "ruid c \<noteq> 0"
      and cfg: "libc_fopen_cfg w = Some bytes"
      by (auto simp: main_def Let_def split: if_splits option.splits)
    obtain pr res where chk: "check_config_file w = (pr, res)" by (cases "check_config_file w")
    show ?thesis
    proof (cases res)
      case (Inl e)
      with assms(1) Some Inr ids cfg chk have "e = d" by (simp add: main_def)
      with chk Inl check_config_file_diag [of w pr d] assms(2) show ?thesis by simp
    next
      case u: (Inr u)
      show ?thesis
      proof (cases "check_target w argv")
        case (Inl e)
        with assms(1) Some Inr ids cfg chk u show ?thesis by (simp add: main_def)
      next
        case t: (Inr t)
        with assms Some Inr ids cfg chk u
          authorize_diag [of w t "\<lparr>pending = bytes, eof_flag = False\<rparr>" d]
          run_mode_diag [of w c m' "ruid c" t argv envp d]
        show ?thesis by (auto simp: main_def split: sum.splits)
      qed
    qed
  qed
qed

text \<open>
  Claim C8. \<^verbatim>\<open>check_target\<close> is the part of \<^verbatim>\<open>main\<close> from the argument count to the ancestor
  walk of base (lines 243 to 335). For a target that begins with a slash and has passed
  the checks before the split (three arguments, the whitelist, \<^verbatim>\<open>lstat\<close>, a directory
  without group or other write bit): the target is cut at its last slash into base and
  leaf; the split ends the run with its error ("not a possible target", "trailing
  slashes", ". and ..") exactly when the base is empty, the leaf is empty, or the leaf is
  \<open>.\<close> or \<open>..\<close>; otherwise base and leaf are what the whitelist, the \<^verbatim>\<open>lstat\<close> of base, the
  owner comparison, the account lookup and the ancestor walk receive, and what the target
  handed on holds. A run of the program that ends with an error of the split has such a
  target; and a run that has passed the sanitization, the identity checks and the checks
  of the configuration file exits with the error of \<^verbatim>\<open>check_target\<close>, or goes on to the scan
  with the two halves.
\<close>

theorem C8_target_split:
  assumes "3 \<le> length argv" and "argv ! 1 = path"
    and "whitelist_char_check path True = Inr ()"
    and "sys_lstat w path = Some dirstat"
    and "S_ISDIR (st_mode dirstat)" and "\<not> writable_bits (st_mode dirstat)"
    and "path \<noteq> []" and "hd path = SLASH"
  shows
    "check_target w argv =
       (if spec_base path = [] then Inl Impossible_target
        else if spec_leaf path = [] then Inl Trailing_slash
        else if spec_leaf path = ''.'' \<or> spec_leaf path = ''..'' then Inl Dot_or_dotdot
        else (case whitelist_char_check (spec_base path) True of
                Inl d \<Rightarrow> Inl d
              | Inr _ \<Rightarrow>
             (case whitelist_char_check (spec_leaf path) False of
                Inl d \<Rightarrow> Inl d
              | Inr _ \<Rightarrow>
             (case sys_lstat w (spec_base path) of
                None \<Rightarrow> Inl Stat_base_failed
              | Some statbase_path \<Rightarrow>
             (if \<not> S_ISDIR (st_mode statbase_path) then Inl Base_not_directory
              else if writable_bits (st_mode statbase_path) then Inl Base_permissions
              else if st_uid statbase_path \<noteq> st_uid dirstat then Inl Owner_mismatch
              else (case libc_getpwuid w (st_uid statbase_path) of
                      None \<Rightarrow> Inl Getpwuid_failed
                    | Some name \<Rightarrow>
             (case snd (check_base_path (sys_lstat w) (spec_base path)) of
                Inl d \<Rightarrow> Inl d
              | Inr _ \<Rightarrow>
                  Inr \<lparr>base_path = spec_base path, relative_path = spec_leaf path,
                       statbase_uid = st_uid statbase_path, pw_name = name\<rparr>))))))) \<and>
     ((\<exists>d. check_target w argv = Inl d \<and> split_diag d) \<longleftrightarrow>
        (spec_base path = [] \<or> spec_leaf path = [] \<or>
         spec_leaf path = ''.'' \<or> spec_leaf path = ''..'')) \<and>
     (main w c m argv envp = Some (printed, Exit_error e) \<and> split_diag e \<longrightarrow>
        spec_base path = [] \<or> spec_leaf path = [] \<or>
        spec_leaf path = ''.'' \<or> spec_leaf path = ''..'') \<and>
     (portable_clearenv w m = Some (Inr m') \<and>
      euid c = 0 \<and> rgid c \<noteq> 0 \<and> egid c \<noteq> 0 \<and> ruid c \<noteq> 0 \<and>
      libc_fopen_cfg w = Some bytes \<and> check_config_file w = (printed', Inr ()) \<longrightarrow>
        main w c m argv envp =
          Some (case check_target w argv of
                  Inl d \<Rightarrow> (printed', Exit_error d)
                | Inr t \<Rightarrow>
                    (case authorize w t \<lparr>pending = bytes, eof_flag = False\<rparr> of
                       Inl d \<Rightarrow> (printed', Exit_error d)
                     | Inr _ \<Rightarrow> (printed', run_mode w c m' (ruid c) t argv envp))) \<and>
        (spec_base path = [] \<or> spec_leaf path = [] \<or>
         spec_leaf path = ''.'' \<or> spec_leaf path = ''..'' \<longrightarrow>
           main w c m argv envp =
             Some (printed',
                   Exit_error (if spec_base path = [] then Impossible_target
                               else if spec_leaf path = [] then Trailing_slash
                               else Dot_or_dotdot))))"
proof -
  let ?rejected = "spec_base path = [] \<or> spec_leaf path = [] \<or>
         spec_leaf path = ''.'' \<or> spec_leaf path = ''..''"
  from assms(3) have nul: "NUL \<notin> set path" by (rule whitelisted_no_NUL)
  note sp = split_target_spec [OF assms(7,8) nul]
  from assms(1) have argc: "\<not> length argv < 3" by simp
  have tgt: "check_target w argv =
       (if spec_base path = [] then Inl Impossible_target
        else if spec_leaf path = [] then Inl Trailing_slash
        else if spec_leaf path = ''.'' \<or> spec_leaf path = ''..'' then Inl Dot_or_dotdot
        else (case whitelist_char_check (spec_base path) True of
                Inl d \<Rightarrow> Inl d
              | Inr _ \<Rightarrow>
             (case whitelist_char_check (spec_leaf path) False of
                Inl d \<Rightarrow> Inl d
              | Inr _ \<Rightarrow>
             (case sys_lstat w (spec_base path) of
                None \<Rightarrow> Inl Stat_base_failed
              | Some statbase_path \<Rightarrow>
             (if \<not> S_ISDIR (st_mode statbase_path) then Inl Base_not_directory
              else if writable_bits (st_mode statbase_path) then Inl Base_permissions
              else if st_uid statbase_path \<noteq> st_uid dirstat then Inl Owner_mismatch
              else (case libc_getpwuid w (st_uid statbase_path) of
                      None \<Rightarrow> Inl Getpwuid_failed
                    | Some name \<Rightarrow>
             (case snd (check_base_path (sys_lstat w) (spec_base path)) of
                Inl d \<Rightarrow> Inl d
              | Inr _ \<Rightarrow>
                  Inr \<lparr>base_path = spec_base path, relative_path = spec_leaf path,
                       statbase_uid = st_uid statbase_path, pw_name = name\<rparr>)))))))"
    unfolding check_target_def Let_def assms(2)
    by (simp add: argc assms(3,4,5,6) sp)
  have rejd: "check_target w argv =
      Inl (if spec_base path = [] then Impossible_target
           else if spec_leaf path = [] then Trailing_slash
           else Dot_or_dotdot)" if ?rejected
    using that by (auto simp: tgt)
  have only: ?rejected if "check_target w argv = Inl d" "split_diag d" for d
  proof (rule ccontr)
    assume no: "\<not> ?rejected"
    with that tgt whitelist_diag [of "spec_base path" True d]
      whitelist_diag [of "spec_leaf path" False d]
      check_base_path_loop_diag [of "sys_lstat w" "spec_base path" d]
    show False
      by (auto simp: split_diag_def check_base_path_def
            split: sum.splits option.splits if_splits)
  qed
  have iff: "(\<exists>d. check_target w argv = Inl d \<and> split_diag d) \<longleftrightarrow> ?rejected"
  proof
    assume "\<exists>d. check_target w argv = Inl d \<and> split_diag d"
    then show ?rejected using only by blast
  next
    assume r: ?rejected
    from rejd [OF r] show "\<exists>d. check_target w argv = Inl d \<and> split_diag d"
      by (auto simp: split_diag_def)
  qed
  have conv: "?rejected" if "main w c m argv envp = Some (printed, Exit_error e) \<and> split_diag e"
  proof -
    from that have r: "main w c m argv envp = Some (printed, Exit_error e)" and s: "split_diag e"
      by simp_all
    from main_split_diag [OF r s] s show ?thesis by (rule only)
  qed
  have run: "main w c m argv envp =
          Some (case check_target w argv of
                  Inl d \<Rightarrow> (printed', Exit_error d)
                | Inr t \<Rightarrow>
                    (case authorize w t \<lparr>pending = bytes, eof_flag = False\<rparr> of
                       Inl d \<Rightarrow> (printed', Exit_error d)
                     | Inr _ \<Rightarrow> (printed', run_mode w c m' (ruid c) t argv envp)))"
    if "portable_clearenv w m = Some (Inr m') \<and>
      euid c = 0 \<and> rgid c \<noteq> 0 \<and> egid c \<noteq> 0 \<and> ruid c \<noteq> 0 \<and>
      libc_fopen_cfg w = Some bytes \<and> check_config_file w = (printed', Inr ())"
    using that by (simp add: main_def)
  have rej: "main w c m argv envp =
             Some (printed',
                   Exit_error (if spec_base path = [] then Impossible_target
                               else if spec_leaf path = [] then Trailing_slash
                               else Dot_or_dotdot))"
    if "portable_clearenv w m = Some (Inr m') \<and>
      euid c = 0 \<and> rgid c \<noteq> 0 \<and> egid c \<noteq> 0 \<and> ruid c \<noteq> 0 \<and>
      libc_fopen_cfg w = Some bytes \<and> check_config_file w = (printed', Inr ())"
      and "?rejected"
    using run [OF that(1)] rejd [OF that(2)] by simp
  from tgt iff conv run rej show ?thesis by blast
qed

definition world_dots :: world where
  "world_dots = world0\<lparr>sys_lstat := fs0(''/srv/jails/..'' \<mapsto> alice_dir)\<rparr>"

definition argv_dots :: "string list" where
  "argv_dots = [''userchroot'', ''/srv/jails/..'', ''/bin/sh'']"

theorem C8_target_split_witness:
  "spec_base ''/srv/jails/work'' = ''/srv/jails'' \<and> spec_leaf ''/srv/jails/work'' = ''work'' \<and>
   check_target world0 argv0 = Inr target0 \<and>
   base_path target0 = ''/srv/jails'' \<and> relative_path target0 = ''work'' \<and>
   spec_base ''/srv/jails/..'' = ''/srv/jails'' \<and> spec_leaf ''/srv/jails/..'' = ''..'' \<and>
   portable_clearenv world_dots envmem0 = Some (Inr (envmem0\<lparr>environ := None\<rparr>)) \<and>
   check_config_file world_dots = ([], Inr ()) \<and>
   check_target world_dots argv_dots = Inl Dot_or_dotdot \<and>
   split_diag Dot_or_dotdot \<and>
   main world_dots creds0 envmem0 argv_dots envp0 = Some ([], Exit_error Dot_or_dotdot)"
proof -
  have clr1: "portable_clearenv world_dots envmem0 = Some (Inr (envmem0\<lparr>environ := None\<rparr>))"
    by (simp add: portable_clearenv_def world_dots_def world0_def libc_clearenv_def)
  have ids: "euid creds0 = 0" "rgid creds0 \<noteq> 0" "egid creds0 \<noteq> 0" "ruid creds0 \<noteq> 0"
    by (simp_all add: creds0_def)
  have cfg1: "libc_fopen_cfg world_dots = Some config0" "check_config_file world_dots = ([], Inr ())"
    by code_simp+
  have a0: "3 \<le> length argv0" "argv0 ! 1 = ''/srv/jails/work''"
    "whitelist_char_check ''/srv/jails/work'' True = Inr ()"
    "sys_lstat world0 ''/srv/jails/work'' = Some alice_dir"
    by code_simp+
  have a1: "3 \<le> length argv_dots" "argv_dots ! 1 = ''/srv/jails/..''"
    "whitelist_char_check ''/srv/jails/..'' True = Inr ()"
    "sys_lstat world_dots ''/srv/jails/..'' = Some alice_dir"
    by code_simp+
  have dir: "S_ISDIR (st_mode alice_dir)" "\<not> writable_bits (st_mode alice_dir)"
    by code_simp+
  have p0: "''/srv/jails/work'' \<noteq> []" "hd ''/srv/jails/work'' = SLASH" by simp_all
  have p1: "''/srv/jails/..'' \<noteq> []" "hd ''/srv/jails/..'' = SLASH" by simp_all
  have s0: "spec_base ''/srv/jails/work'' = ''/srv/jails''" "spec_leaf ''/srv/jails/work'' = ''work''"
    by (simp_all add: spec_base_def spec_leaf_def)
  have s1: "spec_base ''/srv/jails/..'' = ''/srv/jails''" "spec_leaf ''/srv/jails/..'' = ''..''"
    by (simp_all add: spec_base_def spec_leaf_def)
  have t0: "check_target world0 argv0 = Inr target0" "base_path target0 = ''/srv/jails''"
    "relative_path target0 = ''work''" by code_simp+
  have sd: "split_diag Dot_or_dotdot" by (simp add: split_diag_def)
  note i0 = C8_target_split [OF a0 dir p0]
  note i1 = C8_target_split [OF a1 dir p1, where c = creds0 and m = envmem0 and envp = envp0
      and m' = "envmem0\<lparr>environ := None\<rparr>" and bytes = config0 and printed' = "[]"
      and printed = "[]" and e = Dot_or_dotdot]
  from i1 clr1 ids cfg1 have "check_target world_dots argv_dots = Inl Dot_or_dotdot"
    and "main world_dots creds0 envmem0 argv_dots envp0 = Some ([], Exit_error Dot_or_dotdot)"
    by (simp_all add: s1)
  with i0 s0 s1 t0 sd clr1 cfg1 show ?thesis by simp
qed

section \<open>Ancestor walk\<close>

definition open_root :: stat where
  "open_root = \<lparr>st_mode = 0x41FF, st_uid = 1001, st_dev = 1, st_ino = 2\<rparr>"

definition fs_open_root :: "string \<Rightarrow> stat option" where
  "fs_open_root = fs0(''/'' \<mapsto> open_root)"

text \<open>
  Claim C3 says the walk stats every directory from the root \<open>/\<close> to the parent of the
  path, the root included, and exits unless each is a directory of uid 0 with no group or
  other write bit. Here the root belongs to uid 1001 and has mode \<open>0777\<close>; the walk on
  \<open>/srv/jails\<close> calls \<^verbatim>\<open>lstat\<close> on \<open>/srv\<close> twice, never on \<open>/\<close>, and accepts.
\<close>

theorem C3_root_not_statted:
  "fs_open_root ''/'' = Some open_root \<and>
   st_uid open_root = 1001 \<and> writable_bits (st_mode open_root) \<and>
   check_base_path fs_open_root ''/srv/jails'' = ([''/srv'', ''/srv''], Inr ())"
  by code_simp

section \<open>Config gatekeeper: the checks that print and go on\<close>

definition world_moved :: world where
  "world_moved = world0\<lparr>sys_fstat_cfg := Some (conf_file\<lparr>st_ino := 43\<rparr>)\<rparr>"

text \<open>
  Claim C1 says that a (device, inode) pair of \<^verbatim>\<open>fstat\<close> that differs from the pair of
  \<^verbatim>\<open>lstat\<close> ends the run with the error code before anything else happens. Here the opened
  stream is inode 43 and the path is inode 42: the line "Config file moved after opening.
  Aborting." is printed and the run goes on to \<^verbatim>\<open>execve\<close>.
\<close>

theorem C1_moved_config_runs_on:
  "sys_lstat world_moved (build_CFG world_moved) = Some conf_file \<and>
   sys_fstat_cfg world_moved = Some (conf_file\<lparr>st_ino := 43\<rparr>) \<and>
   st_ino conf_file = 42 \<and>
   main world_moved creds0 envmem0 argv0 envp0 =
     Some ([Config_moved], Execve ''/bin/sh'' [''/bin/sh''] [''HOME=/home/alice''] alice_creds)"
  by code_simp

definition conf_fifo :: stat where
  "conf_fifo = \<lparr>st_mode = 0x11A4, st_uid = 0, st_dev = 1, st_ino = 42\<rparr>"

definition world_fifo :: world where
  "world_fifo =
     world0\<lparr>sys_lstat := fs0(''/etc/userchroot.conf'' \<mapsto> conf_fifo),
            sys_fstat_cfg := Some conf_fifo\<rparr>"

text \<open>
  Claim C4 says that a configuration file that is not a regular file ends the run with the
  error code at that check. Here the configuration path is a FIFO of root with mode
  \<open>0644\<close>: the line "Configuration file ... is not a regular file." is printed and the run
  goes on through the authorization scan to \<^verbatim>\<open>execve\<close>.
\<close>

theorem C4_not_regular_runs_on:
  "sys_lstat world_fifo (build_CFG world_fifo) = Some conf_fifo \<and>
   \<not> S_ISREG (st_mode conf_fifo) \<and>
   main world_fifo creds0 envmem0 argv0 envp0 =
     Some ([Config_not_regular], Execve ''/bin/sh'' [''/bin/sh''] [''HOME=/home/alice''] alice_creds)"
  by code_simp

section \<open>Privilege transition\<close>

lemma run_mode_Execve:
  assumes "run_mode w c m u t argv envp = Execve prog args env cF"
  shows "\<exists>c1. sys_setuid u c = (0, c1) \<and> regain_attempts c1 = (False, cF)"
    and "ruid cF \<noteq> 0" and "euid cF \<noteq> 0" and "rgid cF \<noteq> 0" and "egid cF \<noteq> 0"
    and "env = vec m envp" and "args = drop 2 argv" and "prog = drop 2 argv ! 0"
    and "\<not> (3 \<le> length argv \<and> cstr_at (argv ! 2) 0 = CHR ''-'')"
  using assms
  by (auto simp: run_mode_def Let_def split: if_splits prod.splits sum.splits)

lemma regain_attempts_False:
  assumes "regain_attempts c1 = (False, c2)"
  shows "c2 = c1"
    and "fst (sys_setuid 0 c1) = - 1" and "fst (sys_seteuid 0 c1) = - 1"
    and "fst (sys_setgid 0 c1) = - 1" and "fst (sys_setegid 0 c1) = - 1"
  using assms
  by (auto simp: regain_attempts_def sys_setuid_def sys_seteuid_def sys_setgid_def
        sys_setegid_def split: if_splits prod.splits)

lemma run_mode_Exec_failed:
  assumes "run_mode w c m u t argv envp = Exit_error Exec_failed"
  shows "\<exists>c1 c2. sys_setuid u c = (0, c1) \<and> regain_attempts c1 = (False, c2) \<and>
           ruid c2 \<noteq> 0 \<and> euid c2 \<noteq> 0 \<and> rgid c2 \<noteq> 0 \<and> egid c2 \<noteq> 0"
  using assms
  by (auto simp: run_mode_def Let_def whitelist_char_check_def
        split: if_splits prod.splits sum.splits)

text \<open>
  Claim C2. A run that ends in \<^verbatim>\<open>execve\<close> has called \<^verbatim>\<open>setuid\<close> with the invoking real
  uid, and that call returned 0; each of \<^verbatim>\<open>setuid(0)\<close>, \<^verbatim>\<open>seteuid(0)\<close>, \<^verbatim>\<open>setgid(0)\<close> and
  \<^verbatim>\<open>setegid(0)\<close> after it returned \<open>-1\<close>; the new image starts with real and effective uid
  equal to the invoking real uid and with real and effective gid other than 0. The same
  holds at the call when \<^verbatim>\<open>execve\<close> itself fails. And in Exec mode, once \<^verbatim>\<open>setuid\<close> has
  returned 0: if a regain attempt succeeds or a re-read identity is 0, the run ends with
  the error exit, not with \<^verbatim>\<open>execve\<close>.
\<close>

theorem C2_no_regain_before_exec:
  "(main w c m argv envp = Some (printed, Execve prog args env cF) \<longrightarrow>
      sys_setuid (ruid c) c = (0, cF) \<and>
      fst (sys_setuid 0 cF) = - 1 \<and> fst (sys_seteuid 0 cF) = - 1 \<and>
      fst (sys_setgid 0 cF) = - 1 \<and> fst (sys_setegid 0 cF) = - 1 \<and>
      ruid cF = ruid c \<and> euid cF = ruid c \<and> rgid cF \<noteq> 0 \<and> egid cF \<noteq> 0) \<and>
   (run_mode w c m' u t argv envp = Exit_error Exec_failed \<longrightarrow>
      (\<exists>c1. sys_setuid u c = (0, c1) \<and>
         fst (sys_setuid 0 c1) = - 1 \<and> fst (sys_seteuid 0 c1) = - 1 \<and>
         fst (sys_setgid 0 c1) = - 1 \<and> fst (sys_setegid 0 c1) = - 1 \<and>
         ruid c1 \<noteq> 0 \<and> euid c1 \<noteq> 0 \<and> rgid c1 \<noteq> 0 \<and> egid c1 \<noteq> 0)) \<and>
   (\<not> (3 \<le> length argv \<and> cstr_at (argv ! 2) 0 = CHR ''-'') \<and>
    sys_setuid u c = (0, c1) \<and> regain_attempts c1 = (regained, c2) \<and>
    (regained \<or> ruid c2 = 0 \<or> euid c2 = 0 \<or> rgid c2 = 0 \<or> egid c2 = 0) \<longrightarrow>
      (\<exists>d. run_mode w c m' u t argv envp = Exit_error d))"
proof (intro conjI impI)
  assume run: "main w c m argv envp = Some (printed, Execve prog args env cF)"
  from main_completed [OF run] obtain m1 t where
    root: "euid c = 0" and
    out: "Execve prog args env cF = run_mode w c m1 (ruid c) t argv envp"
    by auto
  from run_mode_Execve(1) [OF out [symmetric]] obtain c1 where
    drop: "sys_setuid (ruid c) c = (0, c1)" and regain: "regain_attempts c1 = (False, cF)"
    by auto
  note same = regain_attempts_False [OF regain]
  from drop root have c1: "c1 = c\<lparr>ruid := ruid c, euid := ruid c, suid := ruid c\<rparr>"
    by (simp add: sys_setuid_def)
  from drop same show "sys_setuid (ruid c) c = (0, cF)" by simp
  from same show "fst (sys_setuid 0 cF) = - 1" "fst (sys_seteuid 0 cF) = - 1"
    "fst (sys_setgid 0 cF) = - 1" "fst (sys_setegid 0 cF) = - 1" by simp_all
  from same c1 show "ruid cF = ruid c" "euid cF = ruid c" by simp_all
  from run_mode_Execve(4,5) [OF out [symmetric]] show "rgid cF \<noteq> 0" "egid cF \<noteq> 0" .
next
  assume "run_mode w c m' u t argv envp = Exit_error Exec_failed"
  from run_mode_Exec_failed [OF this] obtain c1 c2 where
    drop: "sys_setuid u c = (0, c1)" and regain: "regain_attempts c1 = (False, c2)"
    and ids: "ruid c2 \<noteq> 0" "euid c2 \<noteq> 0" "rgid c2 \<noteq> 0" "egid c2 \<noteq> 0"
    by blast
  note same = regain_attempts_False [OF regain]
  from drop same ids
  show "\<exists>c1. sys_setuid u c = (0, c1) \<and>
         fst (sys_setuid 0 c1) = - 1 \<and> fst (sys_seteuid 0 c1) = - 1 \<and>
         fst (sys_setgid 0 c1) = - 1 \<and> fst (sys_setegid 0 c1) = - 1 \<and>
         ruid c1 \<noteq> 0 \<and> euid c1 \<noteq> 0 \<and> rgid c1 \<noteq> 0 \<and> egid c1 \<noteq> 0"
    by auto
next
  assume "\<not> (3 \<le> length argv \<and> cstr_at (argv ! 2) 0 = CHR ''-'') \<and>
    sys_setuid u c = (0, c1) \<and> regain_attempts c1 = (regained, c2) \<and>
    (regained \<or> ruid c2 = 0 \<or> euid c2 = 0 \<or> rgid c2 = 0 \<or> egid c2 = 0)"
  then show "\<exists>d. run_mode w c m' u t argv envp = Exit_error d"
    by (auto simp: run_mode_def Let_def)
qed

definition creds_saved_gid0 :: creds where
  "creds_saved_gid0 = \<lparr>ruid = 1001, euid = 0, suid = 0, rgid = 100, egid = 100, sgid = 0\<rparr>"

definition world_noexec :: world where
  "world_noexec = world0\<lparr>sys_execve_fails := (\<lambda>prog args. True)\<rparr>"

theorem C2_no_regain_before_exec_witness:
  "main world0 creds0 envmem0 argv0 envp0 =
     Some ([], Execve ''/bin/sh'' [''/bin/sh''] [''HOME=/home/alice''] alice_creds) \<and>
   sys_setuid (ruid creds0) creds0 = (0, alice_creds) \<and>
   fst (sys_setuid 0 alice_creds) = - 1 \<and> fst (sys_seteuid 0 alice_creds) = - 1 \<and>
   fst (sys_setgid 0 alice_creds) = - 1 \<and> fst (sys_setegid 0 alice_creds) = - 1 \<and>
   ruid alice_creds = ruid creds0 \<and> euid alice_creds = ruid creds0 \<and>
   rgid alice_creds \<noteq> 0 \<and> egid alice_creds \<noteq> 0 \<and>
   run_mode world_noexec creds0 envmem0 1001 target0 argv0 envp0 = Exit_error Exec_failed \<and>
   fst (regain_attempts (snd (sys_setuid 1001 creds_saved_gid0))) \<and>
   run_mode world0 creds_saved_gid0 envmem0 1001 target0 argv0 envp0 =
     Exit_error Give_up_privileges_failed"
proof -
  have run: "main world0 creds0 envmem0 argv0 envp0 =
     Some ([], Execve ''/bin/sh'' [''/bin/sh''] [''HOME=/home/alice''] alice_creds)"
    by code_simp
  have failed: "run_mode world_noexec creds0 envmem0 1001 target0 argv0 envp0 =
     Exit_error Exec_failed"
    by code_simp
  have regained: "fst (regain_attempts (snd (sys_setuid 1001 creds_saved_gid0)))"
    by code_simp
  have exits: "run_mode world0 creds_saved_gid0 envmem0 1001 target0 argv0 envp0 =
     Exit_error Give_up_privileges_failed"
    by code_simp
  have attempt: "sys_setuid 1001 creds_saved_gid0 = (0, alice_creds\<lparr>sgid := 0\<rparr>) \<and>
      regain_attempts (alice_creds\<lparr>sgid := 0\<rparr>) = (True, alice_creds\<lparr>egid := 0, sgid := 0\<rparr>)"
    by code_simp
  have exec_mode: "\<not> (3 \<le> length argv0 \<and> cstr_at (argv0 ! 2) 0 = CHR ''-'')"
    by code_simp
  from C2_no_regain_before_exec
         [where w = world0 and c = creds0 and m = envmem0 and argv = argv0 and envp = envp0
            and printed = "[]" and prog = "''/bin/sh''" and args = "[''/bin/sh'']"
            and env = "[''HOME=/home/alice'']" and cF = alice_creds]
       C2_no_regain_before_exec
         [where w = world_noexec and c = creds0 and m' = envmem0 and u = 1001 and t = target0
            and argv = argv0 and envp = envp0]
       C2_no_regain_before_exec
         [where argv = argv0 and u = 1001 and c = creds_saved_gid0
            and ?c1.0 = "alice_creds\<lparr>sgid := 0\<rparr>" and regained = True
            and ?c2.0 = "alice_creds\<lparr>egid := 0, sgid := 0\<rparr>"
            and w = world0 and m' = envmem0 and t = target0 and envp = envp0]
       run failed regained exits attempt exec_mode
  show ?thesis by simp
qed

section \<open>The sanitization returns\<close>

lemma strcspn_eq_name:
  assumes "CHR ''='' \<in> set e"
  shows "strcspn_eq e < length e" and "e ! strcspn_eq e = CHR ''=''"
    and "CHR ''='' \<notin> set (take (strcspn_eq e) e)"
proof -
  let ?n = "takeWhile (\<lambda>c. c \<noteq> CHR ''='') e"
  from assms show lt: "strcspn_eq e < length e"
    unfolding strcspn_eq_def by (rule takeWhile_neq_shorter)
  from lt show "e ! strcspn_eq e = CHR ''=''"
    unfolding strcspn_eq_def using nth_length_takeWhile [of "\<lambda>c. c \<noteq> CHR ''=''" e] by simp
  have "take (strcspn_eq e) e = ?n"
    unfolding strcspn_eq_def by (rule takeWhile_eq_take [symmetric])
  then show "CHR ''='' \<notin> set (take (strcspn_eq e) e)"
    by (auto dest: set_takeWhileD)
qed

text \<open>
  The sanitization returns in a build with \<^verbatim>\<open>_HAVE_CLEARENV\<close>, and also with the in-place
  \<^verbatim>\<open>unsetenv\<close> when every entry of the vector holds a \<open>=\<close>.
\<close>

lemma portable_clearenv_native_returns:
  "build_have_clearenv w \<Longrightarrow> portable_clearenv w m \<noteq> None"
  by (simp add: portable_clearenv_def Let_def)

lemma clearenv_loop_in_place_returns:
  assumes "environ m = Some p" and "list_all (\<lambda>e. CHR ''='' \<in> set e) (vec m p)"
  shows "clearenv_loop unsetenv_in_place m \<noteq> None"
  using assms
proof (induction "length (vec m p)" arbitrary: m rule: less_induct)
  case less
  show ?case
  proof (cases "vec m p")
    case Nil
    with less.prems(1) show ?thesis by (subst clearenv_loop.simps) simp
  next
    case (Cons e es)
    with less.prems(2) have eq: "CHR ''='' \<in> set e" by simp
    note nm = strcspn_eq_name [OF eq]
    show ?thesis
    proof (cases "strcspn_eq e = 0")
      case True
      with less.prems(1) Cons show ?thesis by (subst clearenv_loop.simps) simp
    next
      case False
      define name where "name = take (strcspn_eq e) e"
      define m' where "m' = m\<lparr>vec := (vec m)(p := filter (\<lambda>x. \<not> entry_of name x) (vec m p))\<rparr>"
      from False nm(1) have "name \<noteq> []" by (auto simp: name_def)
      with nm(3) less.prems(1) have un: "unsetenv_in_place name m = (0, m')"
        by (simp add: unsetenv_in_place_def name_def m'_def)
      from nm(1,2) have "entry_of name e" by (simp add: entry_of_def cstr_at_def name_def)
      with Cons have v: "vec m' p = filter (\<lambda>x. \<not> entry_of name x) es"
        by (simp add: m'_def)
      have "length (filter (\<lambda>x. \<not> entry_of name x) es) < Suc (length es)"
        by (rule le_imp_less_Suc) (rule length_filter_le)
      with v Cons have shorter: "length (vec m' p) < length (vec m p)" by simp
      from less.prems(2) Cons v have all: "list_all (\<lambda>e. CHR ''='' \<in> set e) (vec m' p)"
        by (auto simp: list_all_iff)
      from less.prems(1) have "environ m' = Some p" by (simp add: m'_def)
      from less.hyps [OF shorter this all]
      have "clearenv_loop unsetenv_in_place m' \<noteq> None" .
      with less.prems(1) Cons False un show ?thesis
        by (subst clearenv_loop.simps) (simp add: name_def)
    qed
  qed
qed

section \<open>The environment handed to the command\<close>

lemma main_Execve_env:
  assumes "main w c m argv envp = Some (printed, Execve prog args env cF)"
  shows "\<exists>m'. portable_clearenv w m = Some (Inr m') \<and> env = vec m' envp"
proof -
  from main_completed [OF assms] obtain m' t where
    clr: "portable_clearenv w m = Some (Inr m')" and
    out: "Execve prog args env cF = run_mode w c m' (ruid c) t argv envp"
    by auto
  from run_mode_Execve(6) [OF out [symmetric]] clr show ?thesis by simp
qed

text \<open>
  The strings handed to \<^verbatim>\<open>execve\<close> are those the vector at \<open>envp\<close> holds after the
  sanitization. In a build with \<^verbatim>\<open>_HAVE_CLEARENV\<close> that is the vector as it was at process
  entry, although \<open>environ\<close> is the null pointer from then on: \<^verbatim>\<open>clearenv\<close> leaves the vector
  alone.
\<close>

lemma native_clearenv_keeps_block:
  assumes "build_have_clearenv w"
    and "main w c m argv envp = Some (printed, Execve prog args env cF)"
  shows "env = vec m envp \<and> portable_clearenv w m = Some (Inr (m\<lparr>environ := None\<rparr>))"
proof -
  from main_Execve_env [OF assms(2)] obtain m' where
    clr: "portable_clearenv w m = Some (Inr m')" and env: "env = vec m' envp"
    by auto
  from clr assms(1) have "m' = m\<lparr>environ := None\<rparr>"
    by (simp add: portable_clearenv_def libc_clearenv_def Let_def split: if_splits)
  with clr env show ?thesis by simp
qed

lemma native_clearenv_keeps_block_world0:
  "build_have_clearenv world0 \<and>
   main world0 creds0 envmem0 argv0 envp0 =
     Some ([], Execve ''/bin/sh'' [''/bin/sh''] [''HOME=/home/alice''] alice_creds) \<and>
   [''HOME=/home/alice''] = vec envmem0 envp0 \<and>
   portable_clearenv world0 envmem0 = Some (Inr (envmem0\<lparr>environ := None\<rparr>))"
proof -
  have native: "build_have_clearenv world0" by code_simp
  have run: "main world0 creds0 envmem0 argv0 envp0 =
     Some ([], Execve ''/bin/sh'' [''/bin/sh''] [''HOME=/home/alice''] alice_creds)"
    by code_simp
  from native_clearenv_keeps_block [OF native run] native run show ?thesis by simp
qed

definition world_fallback :: world where
  "world_fallback = world0\<lparr>build_have_clearenv := False\<rparr>"

lemma clearenv_loop_envmem0:
  "clearenv_loop unsetenv_in_place envmem0 = Some (Inr (envmem0\<lparr>vec := (vec envmem0)(envp0 := [])\<rparr>))"
proof -
  have step: "unsetenv_in_place ''HOME'' envmem0 = (0, envmem0\<lparr>vec := (vec envmem0)(envp0 := [])\<rparr>)"
    by (simp add: unsetenv_in_place_def envmem0_def entry_of_def cstr_at_def)
  have len: "strcspn_eq ''HOME=/home/alice'' = 4" by (simp add: strcspn_eq_def)
  have first: "vec envmem0 envp0 = [''HOME=/home/alice'']" "environ envmem0 = Some envp0"
    by (simp_all add: envmem0_def)
  have last: "clearenv_loop unsetenv_in_place (envmem0\<lparr>vec := (vec envmem0)(envp0 := [])\<rparr>) =
      Some (Inr (envmem0\<lparr>vec := (vec envmem0)(envp0 := [])\<rparr>))"
    by (subst clearenv_loop.simps) (simp add: envmem0_def)
  show ?thesis
    by (subst clearenv_loop.simps) (simp add: first len step last)
qed

text \<open>
  Claim C6 says that in Exec mode the environment block passed to \<^verbatim>\<open>execve\<close> is exactly the
  block received at process entry. Here the program is built without \<^verbatim>\<open>_HAVE_CLEARENV\<close> and
  the platform's \<^verbatim>\<open>unsetenv\<close> deletes in place: \<open>environ\<close> and \<open>envp\<close> are the same address
  at entry, the loop of lines 187 to 207 empties the vector at that address, and
  \<^verbatim>\<open>execve(argv[0], argv, envp)\<close> hands the command no strings, where the entry block held
  \<open>HOME=/home/alice\<close>. The same call in the build with \<^verbatim>\<open>_HAVE_CLEARENV\<close> hands the command
  the entry block.
\<close>

theorem C6_fallback_empties_block:
  "\<not> build_have_clearenv world_fallback \<and>
   libc_unsetenv world_fallback = unsetenv_in_place \<and>
   environ envmem0 = Some envp0 \<and>
   vec envmem0 envp0 = [''HOME=/home/alice''] \<and>
   main world_fallback creds0 envmem0 argv0 envp0 =
     Some ([], Execve ''/bin/sh'' [''/bin/sh''] [] alice_creds) \<and>
   build_have_clearenv world0 \<and>
   main world0 creds0 envmem0 argv0 envp0 =
     Some ([], Execve ''/bin/sh'' [''/bin/sh''] [''HOME=/home/alice''] alice_creds)"
proof -
  have clr: "portable_clearenv world_fallback envmem0 =
      Some (Inr (envmem0\<lparr>vec := (vec envmem0)(envp0 := [])\<rparr>))"
    by (simp add: portable_clearenv_def world_fallback_def world0_def clearenv_loop_envmem0)
  have ids: "euid creds0 = 0" "rgid creds0 = 100" "egid creds0 = 100" "ruid creds0 = 1001"
    by (simp_all add: creds0_def)
  have cfg: "libc_fopen_cfg world_fallback = Some config0"
    by (simp add: world_fallback_def world0_def)
  have chk: "check_config_file world_fallback = ([], Inr ())" by code_simp
  have tgt: "check_target world_fallback argv0 = Inr target0" by code_simp
  have auth: "authorize world_fallback target0 \<lparr>pending = config0, eof_flag = False\<rparr> = Inr ()"
    by code_simp
  have "vec (envmem0\<lparr>vec := (vec envmem0)(envp0 := [])\<rparr>) envp0 = []" by simp
  then have mode: "run_mode world_fallback creds0 (envmem0\<lparr>vec := (vec envmem0)(envp0 := [])\<rparr>)
      1001 target0 argv0 envp0 = Execve ''/bin/sh'' [''/bin/sh''] [] alice_creds"
    by (simp add: run_mode_def world_fallback_def world0_def argv0_def target0_def cstr_at_def
          creds0_def alice_creds_def sys_setuid_def regain_attempts_def sys_seteuid_def
          sys_setgid_def sys_setegid_def whitelist_char_check_def whitelisted_def)
  have fallback: "main world_fallback creds0 envmem0 argv0 envp0 =
     Some ([], Execve ''/bin/sh'' [''/bin/sh''] [] alice_creds)"
    by (simp add: main_def clr ids cfg chk tgt auth mode)
  have native: "build_have_clearenv world0 \<and>
     main world0 creds0 envmem0 argv0 envp0 =
       Some ([], Execve ''/bin/sh'' [''/bin/sh''] [''HOME=/home/alice''] alice_creds)"
    by code_simp
  have build: "\<not> build_have_clearenv world_fallback"
    "libc_unsetenv world_fallback = unsetenv_in_place"
    by (simp_all add: world_fallback_def world0_def)
  from fallback native build show ?thesis by (simp add: envmem0_def)
qed

section \<open>Mode dispatch\<close>

text \<open>
  Claim C7, as amended. The two flags are compared over their own length only (17 and 19
  characters). When \<open>argv[2]\<close> begins with \<open>-\<close> and begins with neither flag, the run ends
  with the error exit: with the usage error when the dispatch is reached by the owner, and
  never with device installation, device removal or \<^verbatim>\<open>execve\<close>. (The sanitization of the
  environment is taken to return.)
\<close>

theorem C7_unknown_flag_exits:
  assumes "portable_clearenv w m \<noteq> None"
    and "3 \<le> length argv" and "cstr_at (argv ! 2) 0 = CHR ''-''"
    and "take 17 (argv ! 2) \<noteq> ''--install-devices''"
    and "take 19 (argv ! 2) \<noteq> ''--uninstall-devices''"
  shows "(\<exists>printed d. main w c m argv envp = Some (printed, Exit_error d)) \<and>
         run_mode w c' m' (statbase_uid t) t argv envp = Exit_error Usage"
proof
  from main_returns [OF assms(1)] obtain printed out where
    run: "main w c m argv envp = Some (printed, out)" by blast
  from main_completed [OF run] assms(2-5) have "\<exists>d. out = Exit_error d"
    by (auto simp: run_mode_flag)
  with run show "\<exists>printed d. main w c m argv envp = Some (printed, Exit_error d)" by auto
  from assms(2-5) show "run_mode w c' m' (statbase_uid t) t argv envp = Exit_error Usage"
    by (simp add: run_mode_flag)
qed

theorem C7_unknown_flag_exits_witness:
  "portable_clearenv world0 envmem0 \<noteq> None \<and>
   cstr_at ([''userchroot'', ''/srv/jails/work'', ''--install''] ! 2) 0 = CHR ''-'' \<and>
   main world0 creds0 envmem0 [''userchroot'', ''/srv/jails/work'', ''--install''] envp0 =
     Some ([], Exit_error Usage) \<and>
   run_mode world0 creds0 envmem0 (statbase_uid target0) target0
     [''userchroot'', ''/srv/jails/work'', ''--install''] envp0 = Exit_error Usage"
proof -
  have a: "portable_clearenv world0 envmem0 \<noteq> None" by code_simp
  have b: "3 \<le> length [''userchroot'', ''/srv/jails/work'', ''--install'']" by simp
  have c: "cstr_at ([''userchroot'', ''/srv/jails/work'', ''--install''] ! 2) 0 = CHR ''-''"
    by code_simp
  have d: "take 17 ([''userchroot'', ''/srv/jails/work'', ''--install''] ! 2) \<noteq> ''--install-devices''"
    by simp
  have e: "take 19 ([''userchroot'', ''/srv/jails/work'', ''--install''] ! 2) \<noteq> ''--uninstall-devices''"
    by simp
  have run: "main world0 creds0 envmem0 [''userchroot'', ''/srv/jails/work'', ''--install''] envp0 =
     Some ([], Exit_error Usage)" by code_simp
  from C7_unknown_flag_exits [OF a b c d e, of creds0 envp0 creds0 envmem0 target0] a c run
  show ?thesis by simp
qed

text \<open>
  The claim as stated fails for an argument that only begins with a flag: it is no
  recognized flag, and the devices are installed.
\<close>

theorem C7_counterexample:
  "cstr_at ''--install-devicesX'' 0 = CHR ''-'' \<and>
   ''--install-devicesX'' \<noteq> ''--install-devices'' \<and>
   ''--install-devicesX'' \<noteq> ''--uninstall-devices'' \<and>
   main world0 creds0 envmem0 [''userchroot'', ''/srv/jails/work'', ''--install-devicesX''] envp0 =
     Some ([], Create_devices ''/srv/jails/work'')"
  by code_simp










section \<open>The lines of the configuration, in the words of the specification\<close>

text \<open>
  "Plain text, one rule per line, each line terminated by a single newline." The lines of a
  byte sequence are its pieces up to and including each newline; what follows the last
  newline is no line.
\<close>

fun lines_acc :: "string \<Rightarrow> string \<Rightarrow> string list" where
  "lines_acc cur [] = []"
| "lines_acc cur (c # cs) =
     (if c = NL then (cur @ [c]) # lines_acc [] cs else lines_acc (cur @ [c]) cs)"

definition config_lines :: "string \<Rightarrow> string list" where
  "config_lines bytes = lines_acc [] bytes"

definition is_line :: "string \<Rightarrow> bool" where
  "is_line l = (l \<noteq> [] \<and> last l = NL \<and> NL \<notin> set (butlast l))"

lemma lines_acc_line:
  "NL \<notin> set l \<Longrightarrow> lines_acc cur (l @ NL # rest) = (cur @ l @ [NL]) # lines_acc [] rest"
  by (induction l arbitrary: cur) auto

lemma lines_acc_tail: "NL \<notin> set t \<Longrightarrow> lines_acc cur t = []"
  by (induction t arbitrary: cur) auto

lemma config_lines_line:
  "NL \<notin> set l \<Longrightarrow> config_lines (l @ NL # rest) = (l @ [NL]) # config_lines rest"
  by (simp add: config_lines_def lines_acc_line)

lemma config_lines_tail: "NL \<notin> set t \<Longrightarrow> config_lines t = []"
  by (simp add: config_lines_def lines_acc_tail)

lemma lines_acc_append:
  "lines_acc cur (pre @ NL # s) = lines_acc cur (pre @ [NL]) @ lines_acc [] s"
  by (induction pre arbitrary: cur) auto

lemma config_lines_append:
  assumes "pre \<noteq> []" and "last pre = NL"
  shows "config_lines (pre @ s) = config_lines pre @ config_lines s"
proof -
  from assms have "pre = butlast pre @ [NL]" by (metis append_butlast_last_id)
  then obtain q where q: "pre = q @ [NL]" ..
  show ?thesis
    using lines_acc_append [of "[]" q s] by (simp add: q config_lines_def)
qed

lemma is_line_split: "is_line l \<longleftrightarrow> (\<exists>l0. l = l0 @ [NL] \<and> NL \<notin> set l0)"
proof
  assume "is_line l"
  then have "l = butlast l @ [NL]" and "NL \<notin> set (butlast l)"
    by (auto simp: is_line_def) (metis append_butlast_last_id)
  then show "\<exists>l0. l = l0 @ [NL] \<and> NL \<notin> set l0" by blast
next
  assume "\<exists>l0. l = l0 @ [NL] \<and> NL \<notin> set l0"
  then show "is_line l" by (auto simp: is_line_def)
qed

section \<open>What the stream functions do on lines\<close>

lemma fgets_chars_short_line:
  "NL \<notin> set l \<Longrightarrow> length l < k \<Longrightarrow> fgets_chars k (l @ NL # rest) = (l @ [NL], rest, False)"
proof (induction l arbitrary: k)
  case Nil
  then obtain j where "k = Suc j" by (cases k) auto
  then show ?case by simp
next
  case (Cons a l)
  then obtain j where k: "k = Suc j" by (cases k) auto
  from Cons.prems k have "a \<noteq> NL" "NL \<notin> set l" "length l < j" by auto
  with Cons.IH [of j] k show ?case by simp
qed

lemma fgets_chars_long_line:
  "NL \<notin> set l \<Longrightarrow> k \<le> length l \<Longrightarrow> fgets_chars k (l @ s) = (take k l, drop k l @ s, False)"
proof (induction k arbitrary: l)
  case 0
  then show ?case by simp
next
  case (Suc k)
  then obtain a l' where l: "l = a # l'" by (cases l) auto
  from Suc.prems l have "a \<noteq> NL" "NL \<notin> set l'" "k \<le> length l'" by auto
  with Suc.IH [of l'] l show ?case by simp
qed

lemma fgets_chars_all:
  "fgets_chars k p = (buf, p', hit) \<Longrightarrow>
   p = buf @ p' \<and> length buf \<le> k \<and> NL \<notin> set (butlast buf) \<and>
   (hit \<longrightarrow> p' = []) \<and> (buf = [] \<and> 0 < k \<longrightarrow> p = [])"
proof (induction k p arbitrary: buf p' hit rule: fgets_chars.induct)
  case (1 p)
  then show ?case by simp
next
  case (2 k)
  then show ?case by simp
next
  case (3 k c p)
  show ?case
  proof (cases "c = NL")
    case True
    with "3.prems" show ?thesis by auto
  next
    case False
    obtain b q h where r: "fgets_chars k p = (b, q, h)" by (cases "fgets_chars k p")
    from "3.IH" [OF False r] have ih: "p = b @ q" "length b \<le> k" "NL \<notin> set (butlast b)"
      "h \<longrightarrow> q = []" by simp_all
    from "3.prems" False r have eq: "buf = c # b" "p' = q" "hit = h" by simp_all
    from ih eq False show ?thesis by (cases b) auto
  qed
qed

lemma fgets_chars_facts:
  assumes "fgets_chars k p = (buf, p', hit)"
  shows "p = buf @ p'" and "length buf \<le> k" and "NL \<notin> set (butlast buf)"
    and "hit \<Longrightarrow> p' = []" and "buf = [] \<Longrightarrow> 0 < k \<Longrightarrow> p = []"
  using fgets_chars_all [OF assms] by auto

definition stream_ok :: "stream \<Rightarrow> bool" where
  "stream_ok f = (\<not> eof_flag f \<or> pending f = [])"

lemma fgets_Some_facts:
  assumes "fgets n f = (Some buf, f1)"
  shows "pending f = buf @ pending f1" and "buf \<noteq> []" and "length buf \<le> n - 1"
    and "NL \<notin> set (butlast buf)" and "stream_ok f \<Longrightarrow> stream_ok f1"
proof -
  obtain b p' hit where fc: "fgets_chars (n - 1) (pending f) = (b, p', hit)"
    by (cases "fgets_chars (n - 1) (pending f)")
  with assms have eq: "buf = b" "b \<noteq> []" "f1 = \<lparr>pending = p', eof_flag = (eof_flag f \<or> hit)\<rparr>"
    by (auto simp: fgets_def split: if_splits)
  note facts = fgets_chars_facts [OF fc]
  from facts(1) eq show "pending f = buf @ pending f1" by simp
  from eq show "buf \<noteq> []" by simp
  from facts(2) eq show "length buf \<le> n - 1" by simp
  from facts(3) eq show "NL \<notin> set (butlast buf)" by simp
  show "stream_ok f1" if "stream_ok f"
    using that facts(1,4) eq by (auto simp: stream_ok_def)
qed

lemma fgets_None_facts:
  assumes "fgets n f = (None, f1)"
  shows "eof_flag f1" and "pending f1 = pending f" and "2 \<le> n \<Longrightarrow> pending f = []"
proof -
  obtain b p' hit where fc: "fgets_chars (n - 1) (pending f) = (b, p', hit)"
    by (cases "fgets_chars (n - 1) (pending f)")
  with assms have eq: "b = []" "f1 = \<lparr>pending = p', eof_flag = True\<rparr>"
    by (auto simp: fgets_def split: if_splits)
  note facts = fgets_chars_facts [OF fc]
  from eq show "eof_flag f1" by simp
  from facts(1) eq show "pending f1 = pending f" by simp
  show "pending f = []" if "2 \<le> n" using that facts(5) eq by simp
qed

lemma fgets_short_line:
  assumes "NL \<notin> set l" and "length l < n - 1" and "\<not> eof_flag f" and "pending f = l @ NL # rest"
  shows "fgets n f = (Some (l @ [NL]), \<lparr>pending = rest, eof_flag = False\<rparr>)"
  using assms fgets_chars_short_line [of l "n - 1" rest] by (simp add: fgets_def)

lemma fgets_long_line:
  assumes "NL \<notin> set l" and "n - 1 \<le> length l" and "2 \<le> n" and "\<not> eof_flag f"
    and "pending f = l @ s"
  shows "fgets n f = (Some (take (n - 1) l), \<lparr>pending = drop (n - 1) l @ s, eof_flag = False\<rparr>)"
proof -
  from assms(2,3) have "take (n - 1) l \<noteq> []" by (cases l) auto
  with assms fgets_chars_long_line [of l "n - 1" s] show ?thesis by (simp add: fgets_def)
qed

lemma cstr_no_NUL: "NUL \<notin> set s \<Longrightarrow> cstr s = s"
  by (auto simp: cstr_def)

lemma cstr_subset: "set (cstr s) \<subseteq> set s"
  by (auto simp: cstr_def dest: set_takeWhileD)

text \<open>The inner loop reads the rest of a line that did not fit, up to its newline.\<close>

lemma skip_rest_long_line:
  assumes "NL \<notin> set l" and "NUL \<notin> set l" and "NL \<notin> set rline" and "2 \<le> n"
  shows "\<exists>r. skip_rest n rline ig \<lparr>pending = l @ NL # rest, eof_flag = False\<rparr> =
           (True, r, \<lparr>pending = rest, eof_flag = False\<rparr>)"
  using assms
proof (induction "length l" arbitrary: l rline ig rule: less_induct)
  case less
  let ?f = "\<lparr>pending = l @ NL # rest, eof_flag = False\<rparr>"
  from less.prems(3) have nonl: "\<not> strchr_found (cstr rline) NL"
    using cstr_subset [of rline] by (auto simp: strchr_found_def)
  show ?case
  proof (cases "length l < n - 1")
    case True
    with less.prems have fg: "fgets n ?f = (Some (l @ [NL]), \<lparr>pending = rest, eof_flag = False\<rparr>)"
      by (intro fgets_short_line) simp_all
    from less.prems(2) have "cstr (l @ [NL]) = l @ [NL]" by (simp add: cstr_no_NUL)
    then have "skip_rest n (l @ [NL]) True \<lparr>pending = rest, eof_flag = False\<rparr> =
        (True, l @ [NL], \<lparr>pending = rest, eof_flag = False\<rparr>)"
      by (subst skip_rest.simps) (simp add: strchr_found_def)
    with nonl fg show ?thesis by (subst skip_rest.simps) simp
  next
    case False
    with less.prems have fg: "fgets n ?f =
        (Some (take (n - 1) l), \<lparr>pending = drop (n - 1) l @ NL # rest, eof_flag = False\<rparr>)"
      by (intro fgets_long_line) simp_all
    from False less.prems(4) have shorter: "length (drop (n - 1) l) < length l" by simp
    from less.prems have "NL \<notin> set (drop (n - 1) l)" "NUL \<notin> set (drop (n - 1) l)"
      "NL \<notin> set (take (n - 1) l)"
      by (auto dest: in_set_dropD in_set_takeD)
    from less.hyps [OF shorter this less.prems(4), of True] obtain r where
      "skip_rest n (take (n - 1) l) True \<lparr>pending = drop (n - 1) l @ NL # rest, eof_flag = False\<rparr> =
         (True, r, \<lparr>pending = rest, eof_flag = False\<rparr>)" ..
    with nonl fg show ?thesis by (subst skip_rest.simps) simp
  qed
qed

lemma scan_loop_buffer: "scan_loop line n r1 f = scan_loop line n r2 f"
  by (subst scan_loop.simps, subst (2) scan_loop.simps) (rule refl)

text \<open>One turn of the outer loop at the start of a line without NUL.\<close>

lemma scan_loop_step:
  assumes "NL \<notin> set l" and "NUL \<notin> set l" and "line \<noteq> []"
  shows "scan_loop line (Suc (length line)) rline \<lparr>pending = l @ NL # rest, eof_flag = False\<rparr> =
           (if l @ [NL] = line then (True, \<lparr>pending = rest, eof_flag = False\<rparr>)
            else scan_loop line (Suc (length line)) [] \<lparr>pending = rest, eof_flag = False\<rparr>)"
proof -
  let ?n = "Suc (length line)"
  let ?f = "\<lparr>pending = l @ NL # rest, eof_flag = False\<rparr>"
  let ?f' = "\<lparr>pending = rest, eof_flag = False\<rparr>"
  from assms(3) have n2: "2 \<le> ?n" by (cases line) simp_all
  show ?thesis
  proof (cases "length l < ?n - 1")
    case True
    with assms have fg: "fgets ?n ?f = (Some (l @ [NL]), ?f')"
      by (intro fgets_short_line) simp_all
    from assms(2) have c: "cstr (l @ [NL]) = l @ [NL]" by (simp add: cstr_no_NUL)
    then have sk: "skip_rest ?n (l @ [NL]) False ?f' = (False, l @ [NL], ?f')"
      by (subst skip_rest.simps) (simp add: strchr_found_def)
    from True have cmp: "strncmp_eq line (l @ [NL]) ?n \<longleftrightarrow> l @ [NL] = line"
      by (auto simp: strncmp_eq_def)
    show ?thesis
      by (subst scan_loop.simps)
         (simp add: fg sk c cmp scan_loop_buffer [of line ?n "l @ [NL]" ?f' "[]"])
  next
    case False
    let ?k = "length line"
    from False assms n2 have fg: "fgets ?n ?f =
        (Some (take ?k l), \<lparr>pending = drop ?k l @ NL # rest, eof_flag = False\<rparr>)"
      using fgets_long_line [of l ?n ?f "NL # rest"] by simp
    from assms have "NL \<notin> set (drop ?k l)" "NUL \<notin> set (drop ?k l)"
      "NL \<notin> set (take ?k l)"
      by (auto dest: in_set_dropD in_set_takeD)
    from skip_rest_long_line [OF this n2, of False rest] obtain r where
      sk: "skip_rest ?n (take ?k l) False
             \<lparr>pending = drop ?k l @ NL # rest, eof_flag = False\<rparr> = (True, r, ?f')" ..
    from False have ne: "l @ [NL] \<noteq> line" by auto
    show ?thesis
      by (subst scan_loop.simps) (simp add: fg sk ne scan_loop_buffer [of line ?n r ?f' "[]"])
  qed
qed

section \<open>The scan finds exactly the lines of the configuration\<close>

text \<open>A configuration without NUL: a line equal to the one looked for is found.\<close>

lemma scan_loop_complete:
  assumes "NUL \<notin> set s" and "line \<noteq> []" and "line \<in> set (config_lines s)"
  shows "fst (scan_loop line (Suc (length line)) r \<lparr>pending = s, eof_flag = False\<rparr>)"
  using assms
proof (induction "length s" arbitrary: s r rule: less_induct)
  case less
  have "NL \<in> set s"
  proof (rule ccontr)
    assume "NL \<notin> set s"
    then have "config_lines s = []" by (rule config_lines_tail)
    with less.prems(3) show False by simp
  qed
  then obtain l rest where s: "s = l @ NL # rest" and l: "NL \<notin> set l"
    by (auto dest: split_list_first)
  from less.prems(1) s have nul: "NUL \<notin> set l" "NUL \<notin> set rest" by auto
  note step = scan_loop_step [OF l nul(1) less.prems(2), of r rest]
  show ?case
  proof (cases "l @ [NL] = line")
    case True
    with step s show ?thesis by simp
  next
    case False
    with less.prems(3) s l have "line \<in> set (config_lines rest)"
      by (auto simp: config_lines_line)
    with less.hyps [of rest "[]"] nul(2) less.prems(2) s
    have "fst (scan_loop line (Suc (length line)) [] \<lparr>pending = rest, eof_flag = False\<rparr>)"
      by simp
    with step False s show ?thesis by simp
  qed
qed

text \<open>The scan stops behind the first line that is equal to the one looked for.\<close>

lemma scan_loop_first_match:
  assumes "\<forall>l \<in> set ls. is_line l \<and> NUL \<notin> set l \<and> l \<noteq> line"
    and "is_line line" and "NUL \<notin> set line"
  shows "scan_loop line (Suc (length line)) r
           \<lparr>pending = concat ls @ line @ rest, eof_flag = False\<rparr> =
         (True, \<lparr>pending = rest, eof_flag = False\<rparr>)"
  using assms(1)
proof (induction ls arbitrary: r)
  case Nil
  from assms(2) obtain l0 where l0: "line = l0 @ [NL]" "NL \<notin> set l0"
    by (auto simp: is_line_split)
  with assms(3) have "NUL \<notin> set l0" "line \<noteq> []" by auto
  from scan_loop_step [OF l0(2) this, of r rest] l0 show ?case by simp
next
  case (Cons l ls)
  then have "is_line l" and nul: "NUL \<notin> set l" and ne: "l \<noteq> line" by auto
  then obtain l0 where l0: "l = l0 @ [NL]" "NL \<notin> set l0"
    by (auto simp: is_line_split)
  from assms(2) have "line \<noteq> []" by (auto simp: is_line_def)
  with nul l0 have "NUL \<notin> set l0" "line \<noteq> []" by auto
  from scan_loop_step [OF l0(2) this, of r "concat ls @ line @ rest"] l0 ne
  have "scan_loop line (Suc (length line)) r
          \<lparr>pending = concat (l # ls) @ line @ rest, eof_flag = False\<rparr> =
        scan_loop line (Suc (length line)) []
          \<lparr>pending = concat ls @ line @ rest, eof_flag = False\<rparr>"
    by simp
  with Cons show ?case by simp
qed

text \<open>Any configuration: what the scan finds is a line of the configuration.\<close>

lemma config_lines_suffix:
  assumes "s = pre @ s'" and "s' = [] \<or> (pre \<noteq> [] \<and> last pre = NL)"
  shows "set (config_lines s') \<subseteq> set (config_lines s)"
proof (cases "s' = []")
  case True
  then show ?thesis by (simp add: config_lines_def)
next
  case False
  with assms show ?thesis by (simp add: config_lines_append)
qed

lemma set_butlast_last: "xs \<noteq> [] \<Longrightarrow> set xs = insert (last xs) (set (butlast xs))"
  by (induction xs) auto

lemma cstr_has_NL:
  assumes "NL \<in> set (cstr buf)" and "NL \<notin> set (butlast buf)"
  shows "cstr buf = buf" and "buf \<noteq> []" and "last buf = NL"
proof -
  from assms(1) have mem: "NL \<in> set buf" using cstr_subset [of buf] by auto
  then show ne: "buf \<noteq> []" by auto
  then have split: "buf = butlast buf @ [last buf]" by simp
  from mem assms(2) set_butlast_last [OF ne] show lst: "last buf = NL" by auto
  have "NUL \<notin> set (butlast buf)"
  proof
    assume "NUL \<in> set (butlast buf)"
    then have "takeWhile (\<lambda>c. c \<noteq> NUL) (butlast buf @ [last buf]) =
        takeWhile (\<lambda>c. c \<noteq> NUL) (butlast buf)"
      by (intro takeWhile_append1) auto
    with split have "cstr buf = takeWhile (\<lambda>c. c \<noteq> NUL) (butlast buf)"
      by (simp add: cstr_def)
    then have "set (cstr buf) \<subseteq> set (butlast buf)" by (auto dest: set_takeWhileD)
    with assms show False by auto
  qed
  with lst set_butlast_last [OF ne] have "NUL \<notin> set buf" by auto
  then show "cstr buf = buf" by (rule cstr_no_NUL)
qed

lemma skip_rest_all:
  "skip_rest n buf ig f1 = (ig', r', f2) \<Longrightarrow> stream_ok f1 \<Longrightarrow> 2 \<le> n \<Longrightarrow>
   buf \<noteq> [] \<Longrightarrow> NL \<notin> set (butlast buf) \<Longrightarrow>
   stream_ok f2 \<and>
   (\<exists>pre. buf @ pending f1 = pre @ pending f2 \<and>
          (pending f2 = [] \<or> (pre \<noteq> [] \<and> last pre = NL))) \<and>
   (ig' \<or> (r' = buf \<and> f2 = f1 \<and> NL \<in> set (cstr buf))) \<and>
   (ig' \<or> \<not> ig)"
proof (induction n buf ig f1 arbitrary: ig' r' f2 rule: skip_rest.induct)
  case (1 linelen rline ignore config)
  note res = "1.prems"(1) and ok = "1.prems"(2) and n2 = "1.prems"(3)
    and ne = "1.prems"(4) and nl = "1.prems"(5)
  show ?case
  proof (cases "strchr_found (cstr rline) NL")
    case True
    with res have eq: "ig' = ignore" "r' = rline" "f2 = config"
      by (simp_all add: skip_rest.simps)
    from True have mem: "NL \<in> set (cstr rline)" by (simp add: strchr_found_def)
    from cstr_has_NL(3) [OF mem nl] ne
    have "rline @ pending config = rline @ pending f2 \<and> rline \<noteq> [] \<and> last rline = NL"
      by (simp add: eq)
    then have "\<exists>pre. rline @ pending config = pre @ pending f2 \<and>
          (pending f2 = [] \<or> (pre \<noteq> [] \<and> last pre = NL))" by blast
    with eq ok mem show ?thesis by simp
  next
    case noline: False
    show ?thesis
    proof (cases "eof_flag config")
      case True
      with noline res have eq: "ig' = True" "r' = rline" "f2 = config"
        by (simp_all add: skip_rest.simps)
      from True ok have "pending config = []" by (simp add: stream_ok_def)
      with eq ok show ?thesis by simp
    next
      case noeof: False
      obtain x f where fg: "fgets linelen config = (x, f)" by (cases "fgets linelen config")
      show ?thesis
      proof (cases x)
        case None
        with noline noeof fg res have eq: "ig' = True" "r' = rline" "f2 = f"
          by (simp_all add: skip_rest.simps)
        from fgets_None_facts [OF fg [unfolded None]] n2
        have "eof_flag f" "pending f = []" by simp_all
        with eq show ?thesis by (simp add: stream_ok_def)
      next
        case (Some b2)
        with noline noeof fg res have rec: "skip_rest linelen b2 True f = (ig', r', f2)"
          by (simp add: skip_rest.simps)
        note fs = fgets_Some_facts [OF fg [unfolded Some]]
        from "1.IH" [OF noline noeof fg [symmetric] Some rec fs(5) [OF ok] n2 fs(2) fs(4)]
        obtain pre where ih: "stream_ok f2" "b2 @ pending f = pre @ pending f2"
          "pending f2 = [] \<or> (pre \<noteq> [] \<and> last pre = NL)" "ig'"
          by auto
        from ih(2) fs(1) have "rline @ pending config = (rline @ pre) @ pending f2" by simp
        moreover from ih(3) have "pending f2 = [] \<or> (rline @ pre \<noteq> [] \<and> last (rline @ pre) = NL)"
          by auto
        ultimately have "\<exists>pre. rline @ pending config = pre @ pending f2 \<and>
          (pending f2 = [] \<or> (pre \<noteq> [] \<and> last pre = NL))" by blast
        with ih(1,4) show ?thesis by simp
      qed
    qed
  qed
qed

lemma scan_loop_sound:
  "linelen = Suc (length line) \<Longrightarrow> line \<noteq> [] \<Longrightarrow> stream_ok config \<Longrightarrow>
   fst (scan_loop line linelen rline config) \<Longrightarrow>
   line \<in> set (config_lines (pending config))"
proof (induction line linelen rline config rule: scan_loop.induct)
  case (1 line linelen rline config)
  note n = "1.prems"(1) and ne = "1.prems"(2) and ok = "1.prems"(3) and found = "1.prems"(4)
  from n ne have n2: "2 \<le> linelen" by (cases line) simp_all
  from found have noeof: "\<not> eof_flag config" by (auto simp: scan_loop.simps split: if_splits)
  obtain x f1 where fg: "fgets linelen config = (x, f1)" by (cases "fgets linelen config")
  from found noeof fg obtain buf where x: "x = Some buf"
    by (cases x) (auto simp: scan_loop.simps)
  note fs = fgets_Some_facts [OF fg [unfolded x]]
  obtain ig r' f2 where sk: "skip_rest linelen buf False f1 = (ig, r', f2)"
    by (cases "skip_rest linelen buf False f1")
  from skip_rest_all [OF sk fs(5) [OF ok] n2 fs(2) fs(4)] obtain pre where
    sr: "stream_ok f2" "buf @ pending f1 = pre @ pending f2"
      "pending f2 = [] \<or> (pre \<noteq> [] \<and> last pre = NL)"
      "ig \<or> (r' = buf \<and> f2 = f1 \<and> NL \<in> set (cstr buf))"
    by auto
  show ?case
  proof (cases "\<not> ig \<and> strncmp_eq line (cstr r') linelen")
    case True
    with sr(4) have same: "r' = buf" "NL \<in> set (cstr buf)" by auto
    note cb = cstr_has_NL [OF same(2) fs(4)]
    from True same cb(1) have "take linelen line = take linelen buf"
      by (simp add: strncmp_eq_def)
    with n fs(3) have eq: "line = buf" by simp
    from cb(2,3) have "buf = butlast buf @ [NL]" by (metis append_butlast_last_id)
    with fs(1) have "pending config = butlast buf @ NL # pending f1" by simp
    with fs(4) have "config_lines (pending config) =
        (butlast buf @ [NL]) # config_lines (pending f1)"
      by (simp add: config_lines_line)
    with \<open>buf = butlast buf @ [NL]\<close> eq show ?thesis by simp
  next
    case False
    with found noeof fg x sk have "fst (scan_loop line linelen r' f2)"
      by (auto simp: scan_loop.simps [of line linelen rline config] split: if_splits)
    with "1.IH" [OF noeof fg [symmetric] x sk [symmetric] refl False n ne sr(1)]
    have "line \<in> set (config_lines (pending f2))" by simp
    with config_lines_suffix [of "pending config" pre "pending f2"] sr(2,3) fs(1)
    show ?thesis by auto
  qed
qed

text \<open>"The target line is the exact byte sequence \<open><owner_name>:<base>\<close> and a newline."\<close>

definition target_line :: "string \<Rightarrow> string \<Rightarrow> string" where
  "target_line name base = name @ '':'' @ base @ [NL]"

lemma config_scan_target:
  "config_scan name base config =
     scan_loop (target_line name base) (Suc (length (target_line name base))) [] config"
proof -
  have n: "length base + length name + 3 = Suc (length (target_line name base))"
    by (simp add: target_line_def)
  have "take (length base + length name + 3 - 1) (name @ '':'' @ base @ [NL]) =
      target_line name base"
    by (simp add: target_line_def)
  then show ?thesis unfolding config_scan_def Let_def n by simp
qed

lemma target_line_is_line:
  "NL \<notin> set name \<Longrightarrow> NL \<notin> set base \<Longrightarrow> is_line (target_line name base)"
  by (simp add: is_line_def target_line_def butlast_append)

lemma authorize_denied:
  "\<not> fst (config_scan (pw_name t) (base_path t) config) \<Longrightarrow> libc_fclose_rc w = 0 \<Longrightarrow>
   authorize w t config = Inl Permission_denied"
  by (cases "config_scan (pw_name t) (base_path t) config") (simp add: authorize_def)

text \<open>
  Claim C5, as amended. Whatever bytes the configuration holds, when the scan sets the match
  flag some line of the configuration is exactly \<open>owner_name:base\<close> and a newline; for a
  configuration that holds no NUL byte the converse holds as well, so there the flag is set
  if and only if the configuration has that line. The line has
  \<open>len(owner_name) + len(base) + 2\<close> bytes, so a line of that length can match and a longer
  one cannot. When the first such line comes after lines without NUL bytes that differ from
  it, of any length, the scan stops right behind it and leaves the rest unread. And a run
  that gets as far as the scan and does not set the flag ends with the error exit: with
  "Permission Denied" when the stream closes, with the message of the failed close
  otherwise.
\<close>

theorem C5_scan_matches_exact_line:
  "(fst (config_scan name base \<lparr>pending = bytes, eof_flag = False\<rparr>) \<longrightarrow>
      target_line name base \<in> set (config_lines bytes)) \<and>
   (NUL \<notin> set bytes \<and> target_line name base \<in> set (config_lines bytes) \<longrightarrow>
      fst (config_scan name base \<lparr>pending = bytes, eof_flag = False\<rparr>)) \<and>
   length (target_line name base) = length name + length base + 2 \<and>
   ((\<forall>l \<in> set ls. is_line l \<and> NUL \<notin> set l \<and> l \<noteq> target_line name base) \<and>
    NL \<notin> set name \<and> NL \<notin> set base \<and> NUL \<notin> set name \<and> NUL \<notin> set base \<longrightarrow>
      config_scan name base
        \<lparr>pending = concat ls @ target_line name base @ rest, eof_flag = False\<rparr> =
        (True, \<lparr>pending = rest, eof_flag = False\<rparr>)) \<and>
   (portable_clearenv w m = Some (Inr m1) \<and>
    euid c = 0 \<and> rgid c \<noteq> 0 \<and> egid c \<noteq> 0 \<and> ruid c \<noteq> 0 \<and>
    libc_fopen_cfg w = Some cfg \<and> check_config_file w = (printed, Inr ()) \<and>
    check_target w argv = Inr t \<and>
    \<not> fst (config_scan (pw_name t) (base_path t) \<lparr>pending = cfg, eof_flag = False\<rparr>) \<longrightarrow>
      main w c m argv envp =
        Some (printed, Exit_error (if libc_fclose_rc w \<noteq> 0 then Close_config_failed
                                   else Permission_denied)))"
proof (intro conjI impI)
  let ?line = "target_line name base"
  have ne: "?line \<noteq> []" by (simp add: target_line_def)
  show "?line \<in> set (config_lines bytes)"
    if "fst (config_scan name base \<lparr>pending = bytes, eof_flag = False\<rparr>)"
  proof -
    from that
    have "fst (scan_loop ?line (Suc (length ?line)) [] \<lparr>pending = bytes, eof_flag = False\<rparr>)"
      by (simp add: config_scan_target)
    from scan_loop_sound [OF refl ne _ this] show ?thesis
      by (simp add: stream_ok_def)
  qed
  show "fst (config_scan name base \<lparr>pending = bytes, eof_flag = False\<rparr>)"
    if "NUL \<notin> set bytes \<and> ?line \<in> set (config_lines bytes)"
  proof -
    from that have nul: "NUL \<notin> set bytes" and mem: "?line \<in> set (config_lines bytes)"
      by simp_all
    from scan_loop_complete [OF nul ne mem, of "[]"] show ?thesis
      by (simp add: config_scan_target)
  qed
  show "length ?line = length name + length base + 2" by (simp add: target_line_def)
  show "config_scan name base \<lparr>pending = concat ls @ ?line @ rest, eof_flag = False\<rparr> =
          (True, \<lparr>pending = rest, eof_flag = False\<rparr>)"
    if h: "(\<forall>l \<in> set ls. is_line l \<and> NUL \<notin> set l \<and> l \<noteq> ?line) \<and>
          NL \<notin> set name \<and> NL \<notin> set base \<and> NUL \<notin> set name \<and> NUL \<notin> set base"
  proof -
    from h have all: "\<forall>l \<in> set ls. is_line l \<and> NUL \<notin> set l \<and> l \<noteq> ?line"
      and nl: "NL \<notin> set name" "NL \<notin> set base" by simp_all
    from h have nul: "NUL \<notin> set ?line" by (simp add: target_line_def)
    from scan_loop_first_match [OF all target_line_is_line [OF nl] nul, of "[]" rest]
    show ?thesis by (simp add: config_scan_target)
  qed
  show "main w c m argv envp =
        Some (printed, Exit_error (if libc_fclose_rc w \<noteq> 0 then Close_config_failed
                                   else Permission_denied))"
    if h: "portable_clearenv w m = Some (Inr m1) \<and>
      euid c = 0 \<and> rgid c \<noteq> 0 \<and> egid c \<noteq> 0 \<and> ruid c \<noteq> 0 \<and>
      libc_fopen_cfg w = Some cfg \<and> check_config_file w = (printed, Inr ()) \<and>
      check_target w argv = Inr t \<and>
      \<not> fst (config_scan (pw_name t) (base_path t) \<lparr>pending = cfg, eof_flag = False\<rparr>)"
  proof -
    from h have "authorize w t \<lparr>pending = cfg, eof_flag = False\<rparr> =
        Inl (if libc_fclose_rc w \<noteq> 0 then Close_config_failed else Permission_denied)"
      by (cases "config_scan (pw_name t) (base_path t) \<lparr>pending = cfg, eof_flag = False\<rparr>")
         (simp add: authorize_def)
    with h show ?thesis by (simp add: main_def)
  qed
qed

definition config_two :: string where
  "config_two = ''bob:/srv/jails'' @ [NL] @ ''alice:/srv/jails'' @ [NL] @ ''carol:/srv''"

definition config_longer :: string where
  "config_longer = ''alice:/srv/jailsX'' @ [NL] @ ''alice:/srv/jail'' @ [NL]"

definition world_longer :: world where
  "world_longer = world0\<lparr>libc_fopen_cfg := Some config_longer\<rparr>"

theorem C5_scan_matches_exact_line_witness:
  "fst (config_scan ''alice'' ''/srv/jails'' \<lparr>pending = config_two, eof_flag = False\<rparr>) \<and>
   NUL \<notin> set config_two \<and>
   target_line ''alice'' ''/srv/jails'' \<in> set (config_lines config_two) \<and>
   config_two = concat [''bob:/srv/jails'' @ [NL]] @ target_line ''alice'' ''/srv/jails'' @ ''carol:/srv'' \<and>
   config_scan ''alice'' ''/srv/jails'' \<lparr>pending = config_two, eof_flag = False\<rparr> =
     (True, \<lparr>pending = ''carol:/srv'', eof_flag = False\<rparr>) \<and>
   libc_fopen_cfg world_longer = Some config_longer \<and>
   check_target world_longer argv0 = Inr target0 \<and>
   \<not> fst (config_scan (pw_name target0) (base_path target0)
            \<lparr>pending = config_longer, eof_flag = False\<rparr>) \<and>
   libc_fclose_rc world_longer = 0 \<and>
   main world_longer creds0 envmem0 argv0 envp0 = Some ([], Exit_error Permission_denied)"
proof -
  have a: "fst (config_scan ''alice'' ''/srv/jails'' \<lparr>pending = config_two, eof_flag = False\<rparr>)"
    by code_simp
  have b: "NUL \<notin> set config_two \<and>
      target_line ''alice'' ''/srv/jails'' \<in> set (config_lines config_two)" by code_simp
  have c: "(\<forall>l \<in> set [''bob:/srv/jails'' @ [NL]].
        is_line l \<and> NUL \<notin> set l \<and> l \<noteq> target_line ''alice'' ''/srv/jails'') \<and>
      NL \<notin> set ''alice'' \<and> NL \<notin> set ''/srv/jails'' \<and>
      NUL \<notin> set ''alice'' \<and> NUL \<notin> set ''/srv/jails''"
    by code_simp
  have two: "config_two =
      concat [''bob:/srv/jails'' @ [NL]] @ target_line ''alice'' ''/srv/jails'' @ ''carol:/srv''"
    by code_simp
  have clr: "portable_clearenv world_longer envmem0 = Some (Inr (envmem0\<lparr>environ := None\<rparr>))"
    by (simp add: portable_clearenv_def world_longer_def world0_def libc_clearenv_def)
  have pre: "euid creds0 = 0 \<and> rgid creds0 \<noteq> 0 \<and> egid creds0 \<noteq> 0 \<and> ruid creds0 \<noteq> 0 \<and>
      libc_fopen_cfg world_longer = Some config_longer \<and>
      check_config_file world_longer = ([], Inr ()) \<and>
      check_target world_longer argv0 = Inr target0 \<and>
      \<not> fst (config_scan (pw_name target0) (base_path target0)
               \<lparr>pending = config_longer, eof_flag = False\<rparr>)"
    by code_simp
  have rc: "libc_fclose_rc world_longer = 0" by code_simp
  from C5_scan_matches_exact_line
         [where name = "''alice''" and base = "''/srv/jails''" and bytes = config_two
            and ls = "[''bob:/srv/jails'' @ [NL]]" and rest = "''carol:/srv''"
            and w = world_longer and c = creds0 and m = envmem0
            and ?m1.0 = "envmem0\<lparr>environ := None\<rparr>" and cfg = config_longer
            and printed = "[]" and argv = argv0 and t = target0 and envp = envp0]
       a b c two [symmetric] clr pre rc
  show ?thesis by simp
qed

text \<open>
  The claim as stated fails on a configuration with a NUL byte. Here the first line is a
  NUL byte and a newline: the buffer that \<^verbatim>\<open>fgets\<close> fills for it is the empty C string, in
  which \<^verbatim>\<open>strchr\<close> finds no newline, so the next line is read as the rest of a long line
  and ignored, and the flag stays unset although the configuration has the exact line.
\<close>

definition config_nul :: string where
  "config_nul = [NUL, NL] @ config0"

definition world_nul :: world where
  "world_nul = world0\<lparr>libc_fopen_cfg := Some config_nul\<rparr>"

theorem C5_counterexample:
  "target_line ''alice'' ''/srv/jails'' \<in> set (config_lines config_nul) \<and>
   \<not> fst (config_scan ''alice'' ''/srv/jails'' \<lparr>pending = config_nul, eof_flag = False\<rparr>) \<and>
   main world_nul creds0 envmem0 argv0 envp0 = Some ([], Exit_error Permission_denied)"
  by code_simp

section \<open>No device mode without a matching entry\<close>

text \<open>
  Claim C10. A run that ends in device installation or removal has passed the scan: the
  configuration that was opened holds the exact line \<open>owner_name:base\<close>, where the owner of
  base is the invoking user. And a run that passes every check before the scan, finds no
  match and closes the stream ends with "Permission Denied" and the error exit, whatever
  \<open>argv[2]\<close> is.
\<close>

theorem C10_devices_need_match:
  "(main w c m argv envp = Some (printed, out) \<and>
    (out = Create_devices p \<or> out = Unlink_devices p) \<longrightarrow>
      (\<exists>t bytes.
         libc_fopen_cfg w = Some bytes \<and> check_target w argv = Inr t \<and>
         fst (config_scan (pw_name t) (base_path t) \<lparr>pending = bytes, eof_flag = False\<rparr>) \<and>
         target_line (pw_name t) (base_path t) \<in> set (config_lines bytes) \<and>
         base_path t = spec_base (argv ! 1) \<and>
         libc_getpwuid w (statbase_uid t) = Some (pw_name t) \<and>
         ruid c = statbase_uid t)) \<and>
   (portable_clearenv w m = Some (Inr m1) \<and>
    euid c = 0 \<and> rgid c \<noteq> 0 \<and> egid c \<noteq> 0 \<and> ruid c \<noteq> 0 \<and>
    libc_fopen_cfg w = Some bytes' \<and> check_config_file w = (printed', Inr ()) \<and>
    check_target w argv = Inr t' \<and>
    \<not> fst (config_scan (pw_name t') (base_path t') \<lparr>pending = bytes', eof_flag = False\<rparr>) \<and>
    libc_fclose_rc w = 0 \<longrightarrow>
      main w c m argv envp = Some (printed', Exit_error Permission_denied))"
proof (intro conjI impI)
  assume h: "main w c m argv envp = Some (printed, out) \<and>
    (out = Create_devices p \<or> out = Unlink_devices p)"
  with main_completed [of w c m argv envp printed out] obtain m' t bytes where
    cfg: "libc_fopen_cfg w = Some bytes" and tgt: "check_target w argv = Inr t" and
    auth: "authorize w t \<lparr>pending = bytes, eof_flag = False\<rparr> = Inr ()" and
    out: "out = run_mode w c m' (ruid c) t argv envp"
    by auto
  note found = authorize_facts(1) [OF auth]
  then have "fst (scan_loop (target_line (pw_name t) (base_path t))
      (Suc (length (target_line (pw_name t) (base_path t)))) []
      \<lparr>pending = bytes, eof_flag = False\<rparr>)"
    by (simp add: config_scan_target)
  from scan_loop_sound [OF refl _ _ this]
  have line: "target_line (pw_name t) (base_path t) \<in> set (config_lines bytes)"
    by (simp add: stream_ok_def target_line_def)
  from check_target_facts(2) [OF tgt] have base: "base_path t = spec_base (argv ! 1)"
    by (rule split_target_Inr(1))
  have owner: "ruid c = statbase_uid t"
  proof (rule ccontr)
    assume "ruid c \<noteq> statbase_uid t"
    with out h show False by (auto simp: run_mode_def Let_def split: if_splits prod.splits sum.splits)
  qed
  from cfg tgt found line base check_target_facts(4) [OF tgt] owner
  show "\<exists>t bytes.
         libc_fopen_cfg w = Some bytes \<and> check_target w argv = Inr t \<and>
         fst (config_scan (pw_name t) (base_path t) \<lparr>pending = bytes, eof_flag = False\<rparr>) \<and>
         target_line (pw_name t) (base_path t) \<in> set (config_lines bytes) \<and>
         base_path t = spec_base (argv ! 1) \<and>
         libc_getpwuid w (statbase_uid t) = Some (pw_name t) \<and>
         ruid c = statbase_uid t"
    by blast
next
  assume h: "portable_clearenv w m = Some (Inr m1) \<and>
    euid c = 0 \<and> rgid c \<noteq> 0 \<and> egid c \<noteq> 0 \<and> ruid c \<noteq> 0 \<and>
    libc_fopen_cfg w = Some bytes' \<and> check_config_file w = (printed', Inr ()) \<and>
    check_target w argv = Inr t' \<and>
    \<not> fst (config_scan (pw_name t') (base_path t') \<lparr>pending = bytes', eof_flag = False\<rparr>) \<and>
    libc_fclose_rc w = 0"
  then have "authorize w t' \<lparr>pending = bytes', eof_flag = False\<rparr> = Inl Permission_denied"
    by (simp add: authorize_denied)
  with h show "main w c m argv envp = Some (printed', Exit_error Permission_denied)"
    by (simp add: main_def)
qed

definition world_nomatch :: world where
  "world_nomatch = world0\<lparr>libc_fopen_cfg := Some (''bob:/srv/jails'' @ [NL])\<rparr>"

definition argv_install :: "string list" where
  "argv_install = [''userchroot'', ''/srv/jails/work'', ''--install-devices'']"

theorem C10_devices_need_match_witness:
  "main world0 creds0 envmem0 argv_install envp0 = Some ([], Create_devices ''/srv/jails/work'') \<and>
   libc_fopen_cfg world0 = Some config0 \<and> check_target world0 argv_install = Inr target0 \<and>
   fst (config_scan (pw_name target0) (base_path target0) \<lparr>pending = config0, eof_flag = False\<rparr>) \<and>
   target_line (pw_name target0) (base_path target0) \<in> set (config_lines config0) \<and>
   ruid creds0 = statbase_uid target0 \<and>
   \<not> fst (config_scan (pw_name target0) (base_path target0)
            \<lparr>pending = ''bob:/srv/jails'' @ [NL], eof_flag = False\<rparr>) \<and>
   main world_nomatch creds0 envmem0 argv_install envp0 = Some ([], Exit_error Permission_denied)"
proof -
  have run: "main world0 creds0 envmem0 argv_install envp0 =
      Some ([], Create_devices ''/srv/jails/work'')" by code_simp
  have facts: "libc_fopen_cfg world0 = Some config0 \<and> check_target world0 argv_install = Inr target0 \<and>
      fst (config_scan (pw_name target0) (base_path target0) \<lparr>pending = config0, eof_flag = False\<rparr>) \<and>
      target_line (pw_name target0) (base_path target0) \<in> set (config_lines config0) \<and>
      ruid creds0 = statbase_uid target0"
    by code_simp
  have clr: "portable_clearenv world_nomatch envmem0 = Some (Inr (envmem0\<lparr>environ := None\<rparr>))"
    by (simp add: portable_clearenv_def world_nomatch_def world0_def libc_clearenv_def)
  have pre: "euid creds0 = 0 \<and> rgid creds0 \<noteq> 0 \<and> egid creds0 \<noteq> 0 \<and> ruid creds0 \<noteq> 0 \<and>
      libc_fopen_cfg world_nomatch = Some (''bob:/srv/jails'' @ [NL]) \<and>
      check_config_file world_nomatch = ([], Inr ()) \<and>
      check_target world_nomatch argv_install = Inr target0 \<and>
      \<not> fst (config_scan (pw_name target0) (base_path target0)
               \<lparr>pending = ''bob:/srv/jails'' @ [NL], eof_flag = False\<rparr>) \<and>
      libc_fclose_rc world_nomatch = 0"
    by code_simp
  from C10_devices_need_match
         [of world0 creds0 envmem0 argv_install envp0 "[]" "Create_devices ''/srv/jails/work''"
            "''/srv/jails/work''"]
       C10_devices_need_match
         [where w = world_nomatch and c = creds0 and m = envmem0 and argv = argv_install
            and envp = envp0 and bytes' = "''bob:/srv/jails'' @ [NL]" and printed' = "[]"
            and t' = target0 and ?m1.0 = "envmem0\<lparr>environ := None\<rparr>"]
       run facts clr pre
  show ?thesis by simp
qed

end
